theory Spec2Isabelle
  imports Main "HOL-Library.Word" "HOL-Library.Sublist"
begin

section \<open>Scattergun entropy tools: quantistool.c and seventool.c\<close>

text \<open>
  Both tools are a straight-line setup followed by a work loop that talks to the outside
  world: a vendor library or a CPU instruction (the source), \<^verbatim>\<open>fwrite\<close> (the sink),
  \<^verbatim>\<open>nanosleep\<close>, and signals that set two global flags at any moment.

  The embedding makes the outside world explicit. The setup is a function of a record of
  the values the library calls return. The work loop is a deterministic step function on
  the program's variables and a program counter; it consumes a schedule of events, each
  either a signal delivery (the handler runs) or the completion of the operation at the
  program counter, carrying what that operation returned. Every call the program makes is
  appended to a trace, so what reached the sink and what the source reported can be read
  off a run.

  Conventions: \<^verbatim>\<open>size_t\<close> is a 64-bit word (LP64), \<^verbatim>\<open>unsigned int\<close> a 32-bit word;
  the \<^verbatim>\<open>int\<close> variables used as booleans (only ever assigned \<^verbatim>\<open>0\<close> and \<^verbatim>\<open>!0\<close>) are
  \<open>bool\<close>; names that clash with Isabelle keywords or HOL constants carry the suffix
  \<open>_v\<close>. Text written by \<^verbatim>\<open>lverbosef\<close> and the verbose-only prints is not traced; the
  statistics lines and the error lines are.
\<close>

type_synonym byte = "8 word"
type_synonym size_t = "64 word"

subsection \<open>Signals and the two flags (identical in both files)\<close>

datatype signum = SIGPIPE | SIGINT | SIGHUP | SIGOTHER

record flags =
  done_v :: bool
  report :: bool

text \<open>\<^verbatim>\<open>static void handler(int signum)\<close>\<close>

definition handler :: "signum \<Rightarrow> 'a flags_scheme \<Rightarrow> 'a flags_scheme" where
  "handler sg s =
     (if sg = SIGPIPE then s\<lparr>done_v := True\<rparr>
      else if sg = SIGINT then s\<lparr>done_v := True\<rparr>
      else if sg = SIGHUP then s\<lparr>report := True\<rparr>
      else s)"

datatype cfile = Stdout | Path string

text \<open>
  The variables both \<^verbatim>\<open>main\<close> functions declare alike, with both files' globals.
  \<open>fp = None\<close> is the null pointer.
\<close>

record vars = flags +
  debug :: bool
  verbose :: bool
  daemonize :: bool
  ident :: string
  xc :: int
  error_v :: bool
  path :: "string option"
  rc :: int
  fp :: "cfile option"
  total_v :: size_t
  reads :: size_t

text \<open>
  What the calls of the setup return in both tools: \<^verbatim>\<open>daemon\<close>, the three
  \<^verbatim>\<open>sigaction\<close> calls, and whether \<^verbatim>\<open>fopen\<close> succeeds.
\<close>

record env0 =
  daemon_rc :: int
  sigaction_rc :: "signum \<Rightarrow> int"
  fopen_ok :: bool

text \<open>
  The schedule of a run of the work loop: a signal is delivered, or the operation at the
  program counter completes. \<open>Tau\<close> completes an operation that returns nothing the
  program looks at (a flag test, an assignment, a print, \<^verbatim>\<open>QuantisClose\<close>); the others
  carry what the call returned: \<^verbatim>\<open>QuantisOpen\<close> its code and the handle it stored,
  \<^verbatim>\<open>QuantisReadHandled\<close> its code and the bytes it stored at the start of the buffer,
  \<^verbatim>\<open>fwrite\<close> its item count, the sampling instruction its register and the carry flag,
  \<^verbatim>\<open>nanosleep\<close> its code and \<^verbatim>\<open>errno\<close>. An event that does not fit the program
  counter leaves the state as it is.
\<close>

datatype errno = EINTR | EFAULT | EINVAL

datatype event =
    Sig signum
  | Tau
  | OpenRet int "nat option"
  | ReadRet int "byte list"
  | WriteRet size_t
  | SampleRet "32 word" bool
  | SleepRet int errno

subsection \<open>quantistool.c: data\<close>

text \<open>
  \<^verbatim>\<open>Quantis.h\<close> is the vendor's header and is not part of the repository. Its enum of
  device types has the two members the tool names; the two macros the tool uses are
  parameters of the model.
\<close>

datatype QuantisDeviceType = QUANTIS_DEVICE_PCI | QUANTIS_DEVICE_USB

record quantis_h =
  QUANTIS_SUCCESS :: int
  QUANTIS_MAX_READ_SIZE :: size_t

definition TYPES :: "QuantisDeviceType list" where
  "TYPES = [QUANTIS_DEVICE_PCI, QUANTIS_DEVICE_USB]"

text \<open>
  What \<^verbatim>\<open>getopt\<close> hands to the \<^verbatim>\<open>switch\<close>: the option character, and for the numeric
  options the value \<^verbatim>\<open>strtoul\<close> returned; for \<^verbatim>\<open>-r\<close> also the text of the argument
  and whether \<^verbatim>\<open>*end\<close> is the terminating NUL.
\<close>

datatype qopt =
    Opt_d | Opt_v | Opt_D
  | Opt_u size_t | Opt_p size_t
  | Opt_c
  | Opt_r string size_t bool
  | Opt_o string | Opt_i string
  | Opt_h | Opt_bad

text \<open>The calls the tool makes, with what they returned.\<close>

datatype qaction =
    Q_usage int
  | Q_lerror string
  | Q_perror string
  | Q_lprintf string
  | Q_daemon int
  | Q_query QuantisDeviceType int bool
  | Q_malloc size_t bool
  | Q_sigaction signum bool int
  | Q_fopen string bool
  | Q_Open QuantisDeviceType "32 word" int "nat option"
  | Q_Read "nat option" size_t int "byte list"
  | Q_fwrite "byte list" size_t
  | Q_Close nat
  | Q_stats size_t size_t size_t size_t
  | Q_debug size_t size_t size_t size_t
  | Q_fclose cfile
  | Q_free

text \<open>
  The program points of the work loop (lines 444-494): the two \<^verbatim>\<open>while (!done)\<close>
  tests, the pending \<^verbatim>\<open>QuantisOpen\<close>, the \<^verbatim>\<open>if (report)\<close> test with its print and its
  reset, the two pending reads, the pending \<^verbatim>\<open>fwrite\<close>, the close, and the return of
  \<^verbatim>\<open>main\<close>.
\<close>

datatype qpc =
    Q_outer | Q_open | Q_inner | Q_report | Q_print | Q_reset
  | Q_read1 | Q_read2 | Q_write | Q_close | Q_returned

record qstate = vars +
  type_v :: QuantisDeviceType
  unit_v :: "32 word"
  size_v :: size_t
  check :: bool
  handle :: "nat option"
  buffer :: "byte list option"
  opens :: size_t
  try_v :: int
  pc :: qpc
  trace :: "qaction list"

definition q_init :: qstate where
  "q_init =
     \<lparr> done_v = False, report = False,
       debug = False, verbose = False, daemonize = False, ident = ''quantistool'',
       xc = 1, error_v = False, path = None, rc = 0, fp = Some Stdout,
       total_v = 0, reads = 0,
       type_v = QUANTIS_DEVICE_USB, unit_v = 0, size_v = 512, check = False,
       handle = None, buffer = None, opens = 0, try_v = 0,
       pc = Q_outer, trace = [] \<rparr>"

definition q_log :: "qaction \<Rightarrow> qstate \<Rightarrow> qstate" where
  "q_log a s = s\<lparr>trace := trace s @ [a]\<rparr>"

subsection \<open>quantistool.c: option parsing (lines 269-331)\<close>

text \<open>The \<^verbatim>\<open>switch\<close>. For a bad \<^verbatim>\<open>-r\<close>, \<^verbatim>\<open>lerror\<close> prints the argument's text.\<close>

definition q_case :: "quantis_h \<Rightarrow> qopt \<Rightarrow> qstate \<Rightarrow> qstate" where
  "q_case h opt s =
     (case opt of
        Opt_d \<Rightarrow> s\<lparr>debug := True\<rparr>
      | Opt_v \<Rightarrow> s\<lparr>verbose := True\<rparr>
      | Opt_D \<Rightarrow> s\<lparr>daemonize := True\<rparr>
      | Opt_u n \<Rightarrow> s\<lparr>type_v := QUANTIS_DEVICE_USB, unit_v := ucast n\<rparr>
      | Opt_p n \<Rightarrow> s\<lparr>type_v := QUANTIS_DEVICE_PCI, unit_v := ucast n\<rparr>
      | Opt_c \<Rightarrow> s\<lparr>check := True\<rparr>
      | Opt_r optarg n end_nul \<Rightarrow>
          (let s1 = s\<lparr>size_v := n\<rparr> in
           if \<not> end_nul \<or> \<not> (0 \<le> n \<and> n \<le> QUANTIS_MAX_READ_SIZE h)
           then (q_log (Q_lerror optarg) s1)\<lparr>error_v := True\<rparr>
           else s1)
      | Opt_o p \<Rightarrow> s\<lparr>path := Some p\<rparr>
      | Opt_i i \<Rightarrow> s\<lparr>ident := i\<rparr>
      | Opt_h \<Rightarrow> s\<lparr>xc := 0, error_v := True\<rparr>
      | Opt_bad \<Rightarrow> s\<lparr>error_v := True\<rparr>)"

text \<open>The \<^verbatim>\<open>while ((opt = getopt(...)) >= 0)\<close> loop with its \<^verbatim>\<open>if (error) break\<close>.\<close>

fun q_getopt :: "quantis_h \<Rightarrow> qopt list \<Rightarrow> qstate \<Rightarrow> qstate" where
  "q_getopt h [] s = s"
| "q_getopt h (opt # opts) s =
     (let s1 = q_case h opt s in if error_v s1 then s1 else q_getopt h opts s1)"

subsection \<open>quantistool.c: \<^verbatim>\<open>query\<close> (lines 165-229)\<close>

text \<open>
  The vendor library as the query sees it: how many devices of a type it counts, and the
  status word of each. (The other getters feed verbose output only.)
\<close>

record quantis_lib =
  QuantisCount :: "QuantisDeviceType \<Rightarrow> int"
  QuantisGetModulesStatus :: "QuantisDeviceType \<Rightarrow> int \<Rightarrow> int"

text \<open>The body of the inner \<^verbatim>\<open>for (jj ...)\<close> loop: the \<^verbatim>\<open>if\<close> chain of lines 214-222.\<close>

definition query_unit ::
  "quantis_lib \<Rightarrow> QuantisDeviceType \<Rightarrow> int \<Rightarrow> QuantisDeviceType \<Rightarrow> int \<Rightarrow> bool \<Rightarrow> bool" where
  "query_unit l want un ty jj r =
     (let status = QuantisGetModulesStatus l ty jj in
      if want \<noteq> ty then r
      else if un \<noteq> jj then r
      else if status = 0 then r
      else True)"

text \<open>The body of the outer \<^verbatim>\<open>for (ii ...)\<close> loop.\<close>

definition query_type ::
  "quantis_lib \<Rightarrow> QuantisDeviceType \<Rightarrow> int \<Rightarrow> QuantisDeviceType \<Rightarrow> bool \<Rightarrow> bool" where
  "query_type l want un ty r =
     (let detected = QuantisCount l ty in
      if detected \<le> 0 then r
      else fold (query_unit l want un ty) (map int [0 ..< nat detected]) r)"

definition query :: "quantis_lib \<Rightarrow> QuantisDeviceType \<Rightarrow> int \<Rightarrow> bool" where
  "query l want un = fold (query_type l want un) TYPES False"

subsection \<open>quantistool.c: \<^verbatim>\<open>main\<close> up to the work loop (lines 333-438)\<close>

text \<open>
  Besides the common calls, the setup asks the vendor library and calls \<^verbatim>\<open>malloc\<close>,
  which returns a block with some contents, or \<open>None\<close> for the null pointer.
\<close>

record qenv = env0 +
  lib :: quantis_lib
  malloc_ret :: "byte list option"

text \<open>The clean-up after the \<^verbatim>\<open>do { } while (0)\<close> (lines 504-514).\<close>

definition q_cleanup :: "qstate \<Rightarrow> qstate" where
  "q_cleanup s =
     (let s1 = (case fp s of Some f \<Rightarrow> q_log (Q_fclose f) s | None \<Rightarrow> s);
          s2 = (case buffer s1 of Some b \<Rightarrow> q_log Q_free s1 | None \<Rightarrow> s1)
      in s2\<lparr>pc := Q_returned\<rparr>)"

text \<open>A block of exactly \<open>n\<close> bytes that starts with \<open>bs\<close> (cut, or padded).\<close>

definition block :: "nat \<Rightarrow> byte list \<Rightarrow> byte list" where
  "block n bs = take n (bs @ replicate n 0)"

text \<open>The three \<^verbatim>\<open>sigaction\<close> calls; line 421 passes \<^verbatim>\<open>&sighup\<close> for \<^verbatim>\<open>SIGINT\<close>.\<close>

definition q_sigaction :: "qenv \<Rightarrow> signum \<Rightarrow> bool \<Rightarrow> qstate \<Rightarrow> qstate" where
  "q_sigaction env sg restart s =
     (q_log (Q_sigaction sg restart (sigaction_rc env sg)) s)\<lparr>rc := sigaction_rc env sg\<rparr>"

text \<open>Lines 431-438; the work loop starts at its outer test.\<close>

definition q_switch :: "qenv \<Rightarrow> qstate \<Rightarrow> qstate" where
  "q_switch env s =
     (case path s of
        None \<Rightarrow> s\<lparr>pc := Q_outer\<rparr>
      | Some p \<Rightarrow>
          if fopen_ok env
          then (q_log (Q_fopen p True) s)\<lparr>fp := Some (Path p), pc := Q_outer\<rparr>
          else q_cleanup (q_log (Q_lerror p) ((q_log (Q_fopen p False) s)\<lparr>fp := None\<rparr>)))"

text \<open>Lines 393-425, then the switch of the output.\<close>

definition q_alloc :: "quantis_h \<Rightarrow> qenv \<Rightarrow> qstate \<Rightarrow> qstate" where
  "q_alloc h env s =
     (let s3 = (q_log (Q_malloc (size_v s) (malloc_ret env \<noteq> None)) s)
                 \<lparr>buffer := map_option (block (unat (size_v s))) (malloc_ret env)\<rparr>
      in
      if buffer s3 = None then q_cleanup (q_log (Q_lerror ''malloc'') s3)
      else
        let s4 = q_sigaction env SIGPIPE False s3 in
        if rc s4 < 0 then q_cleanup (q_log (Q_lerror ''sigaction'') s4)
        else
          let s5 = q_sigaction env SIGHUP True s4 in
          if rc s5 < 0 then q_cleanup (q_log (Q_lerror ''sigaction'') s5)
          else
            let s6 = q_sigaction env SIGINT True s5 in
            if rc s6 < 0 then q_cleanup (q_log (Q_lerror ''sigaction'') s6)
            else q_switch env s6)"

text \<open>Lines 335-391, then the rest.\<close>

definition q_setup :: "quantis_h \<Rightarrow> qenv \<Rightarrow> qstate \<Rightarrow> qstate" where
  "q_setup h env s =
     (if error_v s then q_cleanup (q_log (Q_usage (xc s)) s)
      else if daemonize s \<and> daemon_rc env < 0
      then q_cleanup (q_log (Q_perror ''daemon'') (q_log (Q_daemon (daemon_rc env)) s))
      else
        let s0 = (if daemonize s then q_log (Q_daemon (daemon_rc env)) s else s);
            r = query (lib env) (type_v s0) (sint (unit_v s0));
            s1 = (q_log (Q_query (type_v s0) (sint (unit_v s0)) r) s0)
                   \<lparr>rc := (if r then 1 else 0)\<rparr>
        in
        if \<not> r \<and> check s1 then q_cleanup s1
        else if size_v s1 = 0 then q_cleanup (s1\<lparr>xc := 0\<rparr>)
        else if size_v s1 > QUANTIS_MAX_READ_SIZE h
        then q_alloc h env (s1\<lparr>size_v := QUANTIS_MAX_READ_SIZE h\<rparr>)
        else q_alloc h env s1)"

subsection \<open>quantistool.c: the work loop (lines 444-496)\<close>

text \<open>Leaving the outer loop: \<^verbatim>\<open>xc = 0\<close> (line 496), then the clean-up.\<close>

definition q_leave :: "qstate \<Rightarrow> qstate" where
  "q_leave s = q_cleanup (s\<lparr>xc := 0\<rparr>)"

definition bytes_of :: "byte list option \<Rightarrow> byte list" where
  "bytes_of b = (case b of Some bs \<Rightarrow> bs | None \<Rightarrow> [])"

text \<open>The \<open>size\<close> bytes at \<open>buffer\<close>: what \<^verbatim>\<open>fwrite(buffer, size, 1, fp)\<close> is handed.\<close>

definition q_unit :: "qstate \<Rightarrow> byte list" where
  "q_unit s = take (unat (size_v s)) (bytes_of (buffer s))"

text \<open>The library stores \<open>d\<close> at the start of the buffer; the rest keeps its contents.\<close>

definition store :: "byte list \<Rightarrow> byte list \<Rightarrow> byte list" where
  "store d b = take (length b) (d @ drop (length d) b)"

text \<open>Line 444.\<close>

definition q_outer :: "qstate \<Rightarrow> qstate" where
  "q_outer s = (if done_v s then q_leave s else s\<lparr>pc := Q_open\<rparr>)"

text \<open>Lines 446-452.\<close>

definition q_open :: "quantis_h \<Rightarrow> int \<Rightarrow> nat option \<Rightarrow> qstate \<Rightarrow> qstate" where
  "q_open h r hdl s =
     (let s1 = (q_log (Q_Open (type_v s) (unit_v s) r hdl) s)\<lparr>rc := r, handle := hdl\<rparr> in
      if rc s1 < QUANTIS_SUCCESS h then q_leave (q_log (Q_lprintf ''QuantisOpen'') s1)
      else s1\<lparr>opens := opens s1 + 1, pc := Q_inner\<rparr>)"

text \<open>Line 461.\<close>

definition q_inner :: "qstate \<Rightarrow> qstate" where
  "q_inner s = (if done_v s then s\<lparr>pc := Q_close\<rparr> else s\<lparr>pc := Q_report\<rparr>)"

text \<open>Lines 462-465, one operation at a time.\<close>

definition q_report :: "qstate \<Rightarrow> qstate" where
  "q_report s = (if report s then s\<lparr>pc := Q_print\<rparr> else s\<lparr>pc := Q_read1\<rparr>)"

definition q_print :: "qstate \<Rightarrow> qstate" where
  "q_print s =
     (q_log (Q_stats (opens s) (size_v s) (reads s) (total_v s)) s)\<lparr>pc := Q_reset\<rparr>"

definition q_reset :: "qstate \<Rightarrow> qstate" where
  "q_reset s = s\<lparr>report := False, pc := Q_read1\<rparr>"

text \<open>The call of \<^verbatim>\<open>QuantisReadHandled\<close> (lines 466 and 469).\<close>

definition q_readcall :: "int \<Rightarrow> byte list \<Rightarrow> qstate \<Rightarrow> qstate" where
  "q_readcall r d s =
     (let s1 = s\<lparr>rc := r, buffer := map_option (store d) (buffer s)\<rparr> in
      q_log (Q_Read (handle s1) (size_v s1) r (q_unit s1)) s1)"

text \<open>Lines 475-479.\<close>

definition q_count :: "quantis_h \<Rightarrow> qstate \<Rightarrow> qstate" where
  "q_count h s =
     (if rc s < QUANTIS_SUCCESS h then s\<lparr>pc := Q_close\<rparr>
      else s\<lparr>reads := reads s + 1, total_v := total_v s + size_v s, pc := Q_write\<rparr>)"

text \<open>Lines 466-468.\<close>

definition q_read1 :: "quantis_h \<Rightarrow> int \<Rightarrow> byte list \<Rightarrow> qstate \<Rightarrow> qstate" where
  "q_read1 h r d s =
     (let s1 = q_readcall r d s in
      if rc s1 < QUANTIS_SUCCESS h
      then (q_log (Q_lprintf ''QuantisReadHandled try=1'') s1)\<lparr>pc := Q_read2\<rparr>
      else q_count h s1)"

text \<open>Lines 469-474.\<close>

definition q_read2 :: "quantis_h \<Rightarrow> int \<Rightarrow> byte list \<Rightarrow> qstate \<Rightarrow> qstate" where
  "q_read2 h r d s =
     (let s1 = q_readcall r d s in
      if rc s1 < QUANTIS_SUCCESS h
      then (q_log (Q_lprintf ''QuantisReadHandled try=2'') s1)\<lparr>pc := Q_close\<rparr>
      else q_count h s1)"

text \<open>Lines 480-488.\<close>

definition q_write :: "size_t \<Rightarrow> qstate \<Rightarrow> qstate" where
  "q_write written s =
     (let s1 = q_log (Q_fwrite (q_unit s) written) s in
      if written < 1 then (q_log (Q_lerror ''fwrite'') s1)\<lparr>pc := Q_close\<rparr>
      else if debug s1
      then (q_log (Q_debug (opens s1) (size_v s1) (reads s1) (total_v s1)) s1)\<lparr>pc := Q_inner\<rparr>
      else s1\<lparr>pc := Q_inner\<rparr>)"

text \<open>Lines 490-494; the handle variable keeps its value.\<close>

definition q_close :: "qstate \<Rightarrow> qstate" where
  "q_close s =
     (case handle s of
        Some hdl \<Rightarrow> (q_log (Q_Close hdl) s)\<lparr>pc := Q_outer\<rparr>
      | None \<Rightarrow> s\<lparr>pc := Q_outer\<rparr>)"

text \<open>One event. After \<^verbatim>\<open>main\<close> has returned nothing happens any more.\<close>

definition q_step :: "quantis_h \<Rightarrow> qstate \<Rightarrow> event \<Rightarrow> qstate" where
  "q_step h s ev =
     (if pc s = Q_returned then s
      else case ev of
        Sig sg \<Rightarrow> handler sg s
      | Tau \<Rightarrow>
          (case pc s of
             Q_outer \<Rightarrow> q_outer s
           | Q_inner \<Rightarrow> q_inner s
           | Q_report \<Rightarrow> q_report s
           | Q_print \<Rightarrow> q_print s
           | Q_reset \<Rightarrow> q_reset s
           | Q_close \<Rightarrow> q_close s
           | _ \<Rightarrow> s)
      | OpenRet r hdl \<Rightarrow> (if pc s = Q_open then q_open h r hdl s else s)
      | ReadRet r d \<Rightarrow>
          (if pc s = Q_read1 then q_read1 h r d s
           else if pc s = Q_read2 then q_read2 h r d s
           else s)
      | WriteRet w \<Rightarrow> (if pc s = Q_write then q_write w s else s)
      | _ \<Rightarrow> s)"

text \<open>The whole program on a command line, the setup's environment and a schedule.\<close>

definition quantistool :: "quantis_h \<Rightarrow> qopt list \<Rightarrow> qenv \<Rightarrow> event list \<Rightarrow> qstate" where
  "quantistool h opts env evs = foldl (q_step h) (q_setup h env (q_getopt h opts q_init)) evs"

subsection \<open>seventool.c: data\<close>

datatype mode = FAIL | RDRAND | RDSEED

record timespec =
  tv_sec :: int
  tv_nsec :: int

datatype sopt =
    SOpt_d | SOpt_v | SOpt_D
  | SOpt_o string | SOpt_i string
  | SOpt_h | SOpt_R | SOpt_S | SOpt_bad

text \<open>
  The calls the tool makes, with what they returned. \<open>S_attempt\<close> records one pass
  through lines 316-343: the branch taken (for \<open>RDRAND\<close> and \<open>RDSEED\<close> the instruction
  was executed, for \<open>FAIL\<close> none was) and the values of \<^verbatim>\<open>word\<close> and \<^verbatim>\<open>carry\<close> that
  reach the test of line 344.
\<close>

datatype saction =
    S_usage int
  | S_lerror string
  | S_perror string
  | S_openlog string
  | S_closelog
  | S_daemon int
  | S_sigaction signum bool int
  | S_fopen string bool
  | S_attempt mode "32 word" "8 word"
  | S_nanosleep timespec int
  | S_fwrite "32 word" size_t
  | S_stats size_t size_t size_t size_t
  | S_debug size_t size_t size_t size_t
  | S_fclose cfile

text \<open>
  The program points of the work loop (lines 311-364): the \<^verbatim>\<open>while (!done)\<close> test, the
  \<^verbatim>\<open>if (report)\<close> test with its print and its reset, the sampling attempt, the pending
  \<^verbatim>\<open>nanosleep\<close>, the pending \<^verbatim>\<open>fwrite\<close>, and the return of \<^verbatim>\<open>main\<close>.
\<close>

datatype spc =
    P_loop | P_report | P_print | P_reset | P_sample | P_sleep | P_write | P_returned

record sstate = vars +
  request :: timespec
  tries :: size_t
  mode_v :: mode
  word_v :: "32 word"
  carry :: "8 word"
  spc :: spc
  strace :: "saction list"

definition CAFEBEEF :: "32 word" where
  "CAFEBEEF = 0xCAFEBEEF"

definition DEADCODE :: "32 word" where
  "DEADCODE = 0xDEADC0DE"

text \<open>
  \<^verbatim>\<open>word\<close> and \<^verbatim>\<open>carry\<close> are declared without an initialiser: until line 308 they hold
  whatever the stack holds, which the environment supplies.
\<close>

record senv = env0 +
  stack_word :: "32 word"
  stack_carry :: "8 word"

definition s_init :: "senv \<Rightarrow> sstate" where
  "s_init env =
     \<lparr> done_v = False, report = False,
       debug = False, verbose = False, daemonize = False, ident = ''seventool'',
       xc = 1, error_v = False, path = None, rc = 0, fp = Some Stdout,
       total_v = 0, reads = 0,
       request = \<lparr>tv_sec = 0, tv_nsec = 0\<rparr>, tries = 0, mode_v = FAIL,
       word_v = stack_word env, carry = stack_carry env,
       spc = P_loop, strace = [] \<rparr>"

definition s_log :: "saction \<Rightarrow> sstate \<Rightarrow> sstate" where
  "s_log a s = s\<lparr>strace := strace s @ [a]\<rparr>"

subsection \<open>seventool.c: option parsing (lines 167-214)\<close>

definition s_case :: "sopt \<Rightarrow> sstate \<Rightarrow> sstate" where
  "s_case opt s =
     (case opt of
        SOpt_d \<Rightarrow> s\<lparr>debug := True\<rparr>
      | SOpt_v \<Rightarrow> s\<lparr>verbose := True\<rparr>
      | SOpt_D \<Rightarrow> s\<lparr>daemonize := True\<rparr>
      | SOpt_o p \<Rightarrow> s\<lparr>path := Some p\<rparr>
      | SOpt_i i \<Rightarrow> s\<lparr>ident := i\<rparr>
      | SOpt_h \<Rightarrow> s\<lparr>xc := 0, error_v := True\<rparr>
      | SOpt_R \<Rightarrow> s\<lparr>mode_v := RDRAND\<rparr>
      | SOpt_S \<Rightarrow> s\<lparr>mode_v := RDSEED\<rparr>
      | SOpt_bad \<Rightarrow> s\<lparr>error_v := True\<rparr>)"

fun s_getopt :: "sopt list \<Rightarrow> sstate \<Rightarrow> sstate" where
  "s_getopt [] s = s"
| "s_getopt (opt # opts) s =
     (let s1 = s_case opt s in if error_v s1 then s1 else s_getopt opts s1)"

subsection \<open>seventool.c: \<^verbatim>\<open>main\<close> up to the work loop (lines 216-309)\<close>

text \<open>The clean-up after the \<^verbatim>\<open>do { } while (0)\<close> (lines 374-382).\<close>

definition s_cleanup :: "sstate \<Rightarrow> sstate" where
  "s_cleanup s =
     (case fp s of
        Some f \<Rightarrow> (s_log (S_fclose f) s)\<lparr>spc := P_returned\<rparr>
      | None \<Rightarrow> s\<lparr>spc := P_returned\<rparr>)"

definition s_sigaction :: "senv \<Rightarrow> signum \<Rightarrow> bool \<Rightarrow> sstate \<Rightarrow> sstate" where
  "s_sigaction env sg restart s =
     (s_log (S_sigaction sg restart (sigaction_rc env sg)) s)\<lparr>rc := sigaction_rc env sg\<rparr>"

text \<open>Lines 305-309: the sleep request, and the initial \<^verbatim>\<open>word\<close> and \<^verbatim>\<open>carry\<close>.\<close>

definition s_enter :: "sstate \<Rightarrow> sstate" where
  "s_enter s =
     s\<lparr>request := \<lparr>tv_sec = 0, tv_nsec = 1000000\<rparr>,
       word_v := DEADCODE, carry := 1, spc := P_loop\<rparr>"

text \<open>Lines 286-295, then the entry.\<close>

definition s_switch :: "senv \<Rightarrow> sstate \<Rightarrow> sstate" where
  "s_switch env s =
     (case path s of
        None \<Rightarrow> s_enter s
      | Some p \<Rightarrow>
          if fopen_ok env
          then s_enter ((s_log (S_fopen p True) s)\<lparr>fp := Some (Path p)\<rparr>)
          else s_cleanup (s_log (S_lerror p) ((s_log (S_fopen p False) s)\<lparr>fp := None\<rparr>)))"

text \<open>Lines 258-280; line 276 passes \<^verbatim>\<open>&sighup\<close> for \<^verbatim>\<open>SIGINT\<close>.\<close>

definition s_signals :: "senv \<Rightarrow> sstate \<Rightarrow> sstate" where
  "s_signals env s =
     (let s4 = s_sigaction env SIGPIPE False s in
      if rc s4 < 0 then s_cleanup (s_log (S_lerror ''sigaction'') s4)
      else
        let s5 = s_sigaction env SIGHUP True s4 in
        if rc s5 < 0 then s_cleanup (s_log (S_lerror ''sigaction'') s5)
        else
          let s6 = s_sigaction env SIGINT True s5 in
          if rc s6 < 0 then s_cleanup (s_log (S_lerror ''sigaction'') s6)
          else s_switch env s6)"

text \<open>Lines 218-248, then the rest. \<^verbatim>\<open>query()\<close> has an empty body.\<close>

definition s_setup :: "senv \<Rightarrow> sstate \<Rightarrow> sstate" where
  "s_setup env s =
     (if error_v s then s_cleanup (s_log (S_usage (xc s)) s)
      else if daemonize s
      then
        (let s1 = s_log (S_daemon (daemon_rc env)) (s_log (S_openlog (ident s)) s) in
         if daemon_rc env < 0 then s_cleanup (s_log (S_perror ''daemon'') s1)
         else s_signals env (s_log (S_openlog (ident s)) (s_log S_closelog s1)))
      else s_signals env s)"

subsection \<open>seventool.c: the work loop (lines 311-366)\<close>

definition s_leave :: "sstate \<Rightarrow> sstate" where
  "s_leave s = s_cleanup (s\<lparr>xc := 0\<rparr>)"

text \<open>Line 311.\<close>

definition s_loop :: "sstate \<Rightarrow> sstate" where
  "s_loop s = (if done_v s then s_leave s else s\<lparr>spc := P_report\<rparr>)"

text \<open>Lines 312-315, one operation at a time; \<^verbatim>\<open>sizeof(word)\<close> is 4.\<close>

definition s_report :: "sstate \<Rightarrow> sstate" where
  "s_report s = (if report s then s\<lparr>spc := P_print\<rparr> else s\<lparr>spc := P_sample\<rparr>)"

definition s_print :: "sstate \<Rightarrow> sstate" where
  "s_print s = (s_log (S_stats (tries s) 4 (reads s) (total_v s)) s)\<lparr>spc := P_reset\<rparr>"

definition s_reset :: "sstate \<Rightarrow> sstate" where
  "s_reset s = s\<lparr>report := False, spc := P_sample\<rparr>"

text \<open>
  The instruction of lines 325-327 and 337-339: \<^verbatim>\<open>word\<close> and \<^verbatim>\<open>carry\<close> are assigned,
  then the instruction overwrites \<^verbatim>\<open>word\<close> with its register and \<^verbatim>\<open>setc\<close> overwrites
  \<^verbatim>\<open>carry\<close> with the carry flag.
\<close>

definition s_instr :: "32 word \<Rightarrow> bool \<Rightarrow> sstate \<Rightarrow> sstate" where
  "s_instr w cf s =
     (let s1 = s\<lparr>word_v := CAFEBEEF, carry := 1\<rparr> in
      s1\<lparr>word_v := w, carry := (if cf then 1 else 0)\<rparr>)"

text \<open>Lines 344-355, up to the pending \<^verbatim>\<open>nanosleep\<close> or \<^verbatim>\<open>fwrite\<close>.\<close>

definition s_test :: "sstate \<Rightarrow> sstate" where
  "s_test s =
     (let s1 = s_log (S_attempt (mode_v s) (word_v s) (carry s)) s in
      if carry s1 \<noteq> 0
      then s1\<lparr>reads := reads s1 + 1, total_v := total_v s1 + 4, spc := P_write\<rparr>
      else s1\<lparr>spc := P_sleep\<rparr>)"

text \<open>
  Lines 316-343 and the test. In mode \<open>RDRAND\<close> or \<open>RDSEED\<close> the attempt completes when
  the instruction does; in mode \<open>FAIL\<close> the branch is empty.
\<close>

definition s_sample :: "event \<Rightarrow> sstate \<Rightarrow> sstate" where
  "s_sample ev s =
     (let s1 = s\<lparr>tries := tries s + 1\<rparr> in
      if mode_v s1 = RDRAND
      then (case ev of SampleRet w cf \<Rightarrow> s_test (s_instr w cf s1) | _ \<Rightarrow> s)
      else if mode_v s1 = RDSEED
      then (case ev of SampleRet w cf \<Rightarrow> s_test (s_instr w cf s1) | _ \<Rightarrow> s)
      else (case ev of Tau \<Rightarrow> s_test s1 | _ \<Rightarrow> s))"

text \<open>Lines 346-353.\<close>

definition s_sleep :: "int \<Rightarrow> errno \<Rightarrow> sstate \<Rightarrow> sstate" where
  "s_sleep r e s =
     (let s1 = (s_log (S_nanosleep (request s) r) s)\<lparr>rc := r\<rparr> in
      if rc s1 \<ge> 0 then s1\<lparr>spc := P_loop\<rparr>
      else if e = EINTR then s1\<lparr>spc := P_loop\<rparr>
      else s_leave (s_log (S_lerror ''nanosleep'') s1))"

text \<open>Lines 356-364.\<close>

definition s_write :: "size_t \<Rightarrow> sstate \<Rightarrow> sstate" where
  "s_write written s =
     (let s1 = s_log (S_fwrite (word_v s) written) s in
      if written < 1 then s_leave (s_log (S_lerror ''fwrite'') s1)
      else if debug s1
      then (s_log (S_debug (tries s1) 4 (reads s1) (total_v s1)) s1)\<lparr>spc := P_loop\<rparr>
      else s1\<lparr>spc := P_loop\<rparr>)"

definition s_step :: "sstate \<Rightarrow> event \<Rightarrow> sstate" where
  "s_step s ev =
     (if spc s = P_returned then s
      else case ev of
        Sig sg \<Rightarrow> handler sg s
      | Tau \<Rightarrow>
          (case spc s of
             P_loop \<Rightarrow> s_loop s
           | P_report \<Rightarrow> s_report s
           | P_print \<Rightarrow> s_print s
           | P_reset \<Rightarrow> s_reset s
           | P_sample \<Rightarrow> s_sample Tau s
           | _ \<Rightarrow> s)
      | SampleRet w cf \<Rightarrow> (if spc s = P_sample then s_sample (SampleRet w cf) s else s)
      | SleepRet r e \<Rightarrow> (if spc s = P_sleep then s_sleep r e s else s)
      | WriteRet w \<Rightarrow> (if spc s = P_write then s_write w s else s)
      | _ \<Rightarrow> s)"

definition seventool :: "sopt list \<Rightarrow> senv \<Rightarrow> event list \<Rightarrow> sstate" where
  "seventool opts env evs = foldl s_step (s_setup env (s_getopt opts (s_init env))) evs"

subsection \<open>Reading a trace\<close>

text \<open>
  The units handed to \<^verbatim>\<open>fwrite\<close>, in order, and the units the source reported as read:
  for the Quantis, the buffer after every \<^verbatim>\<open>QuantisReadHandled\<close> whose code is not below
  \<^verbatim>\<open>QUANTIS_SUCCESS\<close>; for the instruction sampler, the word of every attempt that
  reaches line 344 with a non-zero \<^verbatim>\<open>carry\<close>. The unit in flight is the one already read
  and counted whose \<^verbatim>\<open>fwrite\<close> is pending.
\<close>

definition q_sunk :: "qaction list \<Rightarrow> byte list list" where
  "q_sunk tr = concat (map (\<lambda>a. case a of Q_fwrite u w \<Rightarrow> [u] | _ \<Rightarrow> []) tr)"

definition q_got :: "quantis_h \<Rightarrow> qaction list \<Rightarrow> byte list list" where
  "q_got h tr =
     concat (map (\<lambda>a. case a of
                         Q_Read hdl n r u \<Rightarrow> (if r < QUANTIS_SUCCESS h then [] else [u])
                       | _ \<Rightarrow> []) tr)"

definition q_inflight :: "qstate \<Rightarrow> byte list list" where
  "q_inflight s = (if pc s = Q_write then [q_unit s] else [])"

definition s_sunk :: "saction list \<Rightarrow> 32 word list" where
  "s_sunk tr = concat (map (\<lambda>a. case a of S_fwrite w n \<Rightarrow> [w] | _ \<Rightarrow> []) tr)"

definition s_got :: "saction list \<Rightarrow> 32 word list" where
  "s_got tr =
     concat (map (\<lambda>a. case a of
                         S_attempt m w c \<Rightarrow> (if c \<noteq> 0 then [w] else [])
                       | _ \<Rightarrow> []) tr)"

definition s_inflight :: "sstate \<Rightarrow> 32 word list" where
  "s_inflight s = (if spc s = P_write then [word_v s] else [])"

text \<open>The units whose \<^verbatim>\<open>fwrite\<close> did not come back short: the sink took them whole.\<close>

definition q_taken :: "qaction list \<Rightarrow> byte list list" where
  "q_taken tr =
     concat (map (\<lambda>a. case a of Q_fwrite u w \<Rightarrow> (if w < 1 then [] else [u]) | _ \<Rightarrow> []) tr)"

definition s_taken :: "saction list \<Rightarrow> 32 word list" where
  "s_taken tr =
     concat (map (\<lambda>a. case a of S_fwrite w n \<Rightarrow> (if n < 1 then [] else [w]) | _ \<Rightarrow> []) tr)"

text \<open>
  The four bytes at \<^verbatim>\<open>&word\<close>, lowest address first. The instructions exist on x86
  only, which stores the low byte first.
\<close>

definition word_bytes :: "32 word \<Rightarrow> byte list" where
  "word_bytes w = [ucast w, ucast (drop_bit 8 w), ucast (drop_bit 16 w), ucast (drop_bit 24 w)]"

text \<open>The actions of the work loop on the source and the sink, and of the setup.\<close>

fun q_loop_action :: "qaction \<Rightarrow> bool" where
  "q_loop_action (Q_Open t u r hdl) = True"
| "q_loop_action (Q_Read hdl n r u) = True"
| "q_loop_action (Q_fwrite u w) = True"
| "q_loop_action (Q_Close hdl) = True"
| "q_loop_action a = False"

fun s_loop_action :: "saction \<Rightarrow> bool" where
  "s_loop_action (S_attempt m w c) = True"
| "s_loop_action (S_nanosleep t r) = True"
| "s_loop_action (S_fwrite w n) = True"
| "s_loop_action a = False"

fun q_alloc_action :: "qaction \<Rightarrow> bool" where
  "q_alloc_action (Q_malloc n ok) = True"
| "q_alloc_action (Q_fopen p ok) = True"
| "q_alloc_action a = False"

text \<open>The exit code of a run of quantistool.c: that of \<^verbatim>\<open>main\<close> once it has returned.\<close>

definition q_exit :: "qstate \<Rightarrow> int option" where
  "q_exit s = (if pc s = Q_returned then Some (xc s) else None)"

text \<open>A header, an environment and a device table to run the tools on.\<close>

definition h0 :: quantis_h where
  "h0 = \<lparr>QUANTIS_SUCCESS = 0, QUANTIS_MAX_READ_SIZE = 16777216\<rparr>"

definition no_device :: quantis_lib where
  "no_device = \<lparr>QuantisCount = (\<lambda>t. 0), QuantisGetModulesStatus = (\<lambda>t j. 0)\<rparr>"

definition usb0 :: quantis_lib where
  "usb0 = \<lparr>QuantisCount = (\<lambda>t. if t = QUANTIS_DEVICE_USB then 1 else 0),
           QuantisGetModulesStatus = (\<lambda>t j. 1)\<rparr>"

definition qenv0 :: "quantis_lib \<Rightarrow> qenv" where
  "qenv0 l = \<lparr>daemon_rc = 0, sigaction_rc = (\<lambda>sg. 0), fopen_ok = True,
              lib = l, malloc_ret = Some []\<rparr>"

definition senv0 :: senv where
  "senv0 = \<lparr>daemon_rc = 0, sigaction_rc = (\<lambda>sg. 0), fopen_ok = True,
            stack_word = 0, stack_carry = 0\<rparr>"

subsection \<open>Invariants of a run\<close>

text \<open>Before the work loop nothing is read, written or counted.\<close>

definition q_pre :: "quantis_h \<Rightarrow> qstate \<Rightarrow> bool" where
  "q_pre h s \<longleftrightarrow>
     q_sunk (trace s) = [] \<and> q_got h (trace s) = [] \<and> reads s = 0 \<and> total_v s = 0"

definition s_pre :: "sstate \<Rightarrow> bool" where
  "s_pre s \<longleftrightarrow>
     s_sunk (strace s) = [] \<and> s_got (strace s) = [] \<and> reads s = 0 \<and> total_v s = 0 \<and> tries s = 0"

text \<open>What was read is what was handed to the sink, but for the unit in flight.\<close>

definition q_flow :: "quantis_h \<Rightarrow> qstate \<Rightarrow> bool" where
  "q_flow h s \<longleftrightarrow> q_sunk (trace s) @ q_inflight s = q_got h (trace s)"

definition s_flow :: "sstate \<Rightarrow> bool" where
  "s_flow s \<longleftrightarrow> s_sunk (strace s) @ s_inflight s = s_got (strace s)"

definition q_tally :: "quantis_h \<Rightarrow> qstate \<Rightarrow> bool" where
  "q_tally h s \<longleftrightarrow>
     total_v s = reads s * size_v s \<and> reads s = of_nat (length (q_got h (trace s)))"

definition s_tally :: "sstate \<Rightarrow> bool" where
  "s_tally s \<longleftrightarrow>
     total_v s = reads s * 4 \<and> reads s = of_nat (length (s_got (strace s)))"

text \<open>The variables as the option loop leaves them.\<close>

definition q_parsed :: "quantis_h \<Rightarrow> qopt list \<Rightarrow> qstate" where
  "q_parsed h opts = q_getopt h opts q_init"

text \<open>An action that is neither the loop's nor an allocation: no device, buffer or file.\<close>

definition q_quiet :: "qaction \<Rightarrow> bool" where
  "q_quiet a \<longleftrightarrow> \<not> q_loop_action a \<and> \<not> q_alloc_action a"

text \<open>
  Once the work loop of seventool.c is entered the sleep request is one millisecond, and
  in mode \<open>FAIL\<close> \<^verbatim>\<open>word\<close> and \<^verbatim>\<open>carry\<close> hold their initial values.
\<close>

definition s_ready :: "sstate \<Rightarrow> bool" where
  "s_ready s \<longleftrightarrow>
     (spc s \<noteq> P_returned \<longrightarrow>
        request s = \<lparr>tv_sec = 0, tv_nsec = 1000000\<rparr>
        \<and> (mode_v s = FAIL \<longrightarrow> word_v s = DEADCODE \<and> carry s = 1 \<and> spc s \<noteq> P_sleep))"

text \<open>What mode \<open>FAIL\<close> leaves in a trace: no instruction, no sleep, one constant word.\<close>

fun s_fail_action :: "saction \<Rightarrow> bool" where
  "s_fail_action (S_attempt m w c) = (m = FAIL \<and> w = DEADCODE \<and> c = 1)"
| "s_fail_action (S_fwrite w n) = (w = DEADCODE)"
| "s_fail_action (S_nanosleep t r) = False"
| "s_fail_action a = True"

definition s_parsed :: "sopt list \<Rightarrow> senv \<Rightarrow> sstate" where
  "s_parsed opts env = s_getopt opts (s_init env)"

text \<open>The counters of each tool, to say that none has changed.\<close>

definition q_counters :: "qstate \<Rightarrow> size_t \<times> size_t \<times> size_t \<times> int" where
  "q_counters s = (opens s, reads s, total_v s, try_v s)"

definition s_counters :: "sstate \<Rightarrow> size_t \<times> size_t \<times> size_t" where
  "s_counters s = (tries s, reads s, total_v s)"

text \<open>The state in which each tool reaches its work loop, or has returned from the setup.\<close>

definition q_start :: "quantis_h \<Rightarrow> qopt list \<Rightarrow> qenv \<Rightarrow> qstate" where
  "q_start h opts env = q_setup h env (q_getopt h opts q_init)"

definition s_start :: "sopt list \<Rightarrow> senv \<Rightarrow> sstate" where
  "s_start opts env = s_setup env (s_getopt opts (s_init env))"

text \<open>
  The units the source reports as successfully read, taken from the schedule and not from
  the program's variables. For the Quantis: the bytes that a \<^verbatim>\<open>QuantisReadHandled\<close>
  pending at the program counter stores when its code is not below \<^verbatim>\<open>QUANTIS_SUCCESS\<close>.
  For the instruction sampler in mode \<open>RDRAND\<close> or \<open>RDSEED\<close>: the register of an
  instruction pending at the program counter that sets the carry flag. In mode \<open>FAIL\<close>
  there is no instruction: each attempt stands for the constant of line 159.
\<close>

definition q_src1 :: "quantis_h \<Rightarrow> qstate \<Rightarrow> event \<Rightarrow> byte list list" where
  "q_src1 h s ev =
     (case ev of
        ReadRet r d \<Rightarrow>
          (if (pc s = Q_read1 \<or> pc s = Q_read2) \<and> \<not> r < QUANTIS_SUCCESS h then [d] else [])
      | _ \<Rightarrow> [])"

fun q_src :: "quantis_h \<Rightarrow> qstate \<Rightarrow> event list \<Rightarrow> byte list list" where
  "q_src h s [] = []"
| "q_src h s (ev # evs) = q_src1 h s ev @ q_src h (q_step h s ev) evs"

definition s_src1 :: "sstate \<Rightarrow> event \<Rightarrow> 32 word list" where
  "s_src1 s ev =
     (case ev of
        SampleRet w cf \<Rightarrow>
          (if spc s = P_sample \<and> (mode_v s = RDRAND \<or> mode_v s = RDSEED) \<and> cf
           then [w] else [])
      | Tau \<Rightarrow> (if spc s = P_sample \<and> mode_v s = FAIL then [0xDEADC0DE] else [])
      | _ \<Rightarrow> [])"

fun s_src :: "sstate \<Rightarrow> event list \<Rightarrow> 32 word list" where
  "s_src s [] = []"
| "s_src s (ev # evs) = s_src1 s ev @ s_src (s_step s ev) evs"

text \<open>
  A source that delivers whole units: every read of the schedule that reports success
  stores exactly \<open>n\<close> bytes.
\<close>

definition q_full :: "quantis_h \<Rightarrow> nat \<Rightarrow> event list \<Rightarrow> bool" where
  "q_full h n evs =
     list_all (\<lambda>ev. case ev of ReadRet r d \<Rightarrow> r < QUANTIS_SUCCESS h \<or> length d = n | _ \<Rightarrow> True)
       evs"

text \<open>Some \<^verbatim>\<open>fwrite\<close> of the trace came back short.\<close>

definition q_short :: "qaction list \<Rightarrow> bool" where
  "q_short tr = list_ex (\<lambda>a. case a of Q_fwrite u w \<Rightarrow> w < 1 | _ \<Rightarrow> False) tr"

definition s_short :: "saction list \<Rightarrow> bool" where
  "s_short tr = list_ex (\<lambda>a. case a of S_fwrite w n \<Rightarrow> n < 1 | _ \<Rightarrow> False) tr"

text \<open>In the work loop the buffer is a block of the read size.\<close>

definition q_buf :: "qstate \<Rightarrow> bool" where
  "q_buf s \<longleftrightarrow>
     (pc s \<noteq> Q_returned \<longrightarrow>
        buffer s \<noteq> None \<and> length (bytes_of (buffer s)) = unat (size_v s))"

text \<open>
  Until a write comes back short the sink has taken all it was handed; in seventool.c the
  short write is the last action on the sink, and \<^verbatim>\<open>main\<close> has returned.
\<close>

definition s_lost :: "sstate \<Rightarrow> bool" where
  "s_lost s \<longleftrightarrow>
     (if s_short (strace s)
      then spc s = P_returned \<and> s_taken (strace s) = butlast (s_sunk (strace s))
      else s_taken (strace s) = s_sunk (strace s))"

section \<open>Properties\<close>

subsection \<open>Unfolding and trace lemmas\<close>

lemmas q_loop_defs =
  q_outer_def q_open_def q_inner_def q_report_def q_print_def q_reset_def
  q_readcall_def q_count_def q_read1_def q_read2_def q_write_def q_close_def
  q_leave_def q_cleanup_def q_log_def handler_def

lemmas q_setup_defs =
  q_setup_def q_alloc_def q_sigaction_def q_switch_def q_cleanup_def q_log_def

lemmas s_loop_defs =
  s_loop_def s_report_def s_print_def s_reset_def s_instr_def s_test_def s_sample_def
  s_sleep_def s_write_def s_leave_def s_cleanup_def s_log_def handler_def

lemmas s_setup_defs =
  s_setup_def s_signals_def s_sigaction_def s_switch_def s_enter_def s_cleanup_def s_log_def

lemma q_sunk_simps:
  "q_sunk [] = []"
  "q_sunk (a # tr) = (case a of Q_fwrite u w \<Rightarrow> [u] | _ \<Rightarrow> []) @ q_sunk tr"
  "q_sunk (tr @ tr') = q_sunk tr @ q_sunk tr'"
  by (simp_all add: q_sunk_def)

lemma q_got_simps:
  "q_got h [] = []"
  "q_got h (a # tr) =
     (case a of Q_Read hdl n r u \<Rightarrow> (if r < QUANTIS_SUCCESS h then [] else [u])
                   | _ \<Rightarrow> []) @ q_got h tr"
  "q_got h (tr @ tr') = q_got h tr @ q_got h tr'"
  by (simp_all add: q_got_def)

lemma s_sunk_simps:
  "s_sunk [] = []"
  "s_sunk (a # tr) = (case a of S_fwrite w n \<Rightarrow> [w] | _ \<Rightarrow> []) @ s_sunk tr"
  "s_sunk (tr @ tr') = s_sunk tr @ s_sunk tr'"
  by (simp_all add: s_sunk_def)

lemma s_got_simps:
  "s_got [] = []"
  "s_got (a # tr) =
     (case a of S_attempt m w c \<Rightarrow> (if c \<noteq> 0 then [w] else []) | _ \<Rightarrow> []) @ s_got tr"
  "s_got (tr @ tr') = s_got tr @ s_got tr'"
  by (simp_all add: s_got_def)

lemma q_pre_init: "q_pre h q_init"
  by (simp add: q_pre_def q_init_def q_sunk_simps q_got_simps)

lemma q_pre_case: "q_pre h s \<Longrightarrow> q_pre h (q_case h opt s)"
  by (cases opt) (simp_all add: q_pre_def q_case_def q_log_def Let_def q_sunk_simps q_got_simps)

lemma q_pre_getopt: "q_pre h s \<Longrightarrow> q_pre h (q_getopt h opts s)"
  by (induction opts arbitrary: s) (simp_all add: Let_def q_pre_case)

lemma q_pre_log:
  "q_pre h s \<Longrightarrow> \<not> q_loop_action a \<Longrightarrow> q_pre h (q_log a s)"
  by (cases a) (simp_all add: q_pre_def q_log_def q_sunk_simps q_got_simps)

lemma q_pre_cleanup: "q_pre h s \<Longrightarrow> q_pre h (q_cleanup s)"
  by (simp add: q_pre_def q_cleanup_def q_log_def Let_def q_sunk_simps q_got_simps
           split: option.splits)

lemma q_pre_upd:
  "q_pre h (s\<lparr>rc := r\<rparr>) = q_pre h s"
  "q_pre h (s\<lparr>xc := x\<rparr>) = q_pre h s"
  "q_pre h (s\<lparr>fp := f\<rparr>) = q_pre h s"
  "q_pre h (s\<lparr>pc := p\<rparr>) = q_pre h s"
  "q_pre h (s\<lparr>buffer := b\<rparr>) = q_pre h s"
  "q_pre h (s\<lparr>size_v := n\<rparr>) = q_pre h s"
  by (simp_all add: q_pre_def)

lemma q_pre_sigaction: "q_pre h s \<Longrightarrow> q_pre h (q_sigaction env sg b s)"
  by (simp add: q_sigaction_def q_pre_upd q_pre_log)

lemma q_pre_switch: "q_pre h s \<Longrightarrow> q_pre h (q_switch env s)"
  by (simp add: q_switch_def q_pre_upd q_pre_log q_pre_cleanup split: option.splits)

lemma q_pre_alloc: "q_pre h s \<Longrightarrow> q_pre h (q_alloc h env s)"
  by (simp add: q_alloc_def Let_def q_pre_upd q_pre_log q_pre_cleanup q_pre_sigaction
        q_pre_switch)

lemma q_pre_setup: "q_pre h s \<Longrightarrow> q_pre h (q_setup h env s)"
  by (simp add: q_setup_def Let_def q_pre_upd q_pre_log q_pre_cleanup q_pre_alloc)

lemma q_pc_cleanup: "pc (q_cleanup s) = Q_returned"
  by (simp add: q_cleanup_def Let_def)

lemma q_pc_switch: "pc (q_switch env s) = Q_outer \<or> pc (q_switch env s) = Q_returned"
  by (simp add: q_switch_def q_pc_cleanup split: option.splits)

lemma q_pc_alloc: "pc (q_alloc h env s) = Q_outer \<or> pc (q_alloc h env s) = Q_returned"
  by (simp add: q_alloc_def Let_def q_pc_cleanup q_pc_switch)

lemma q_pc_setup: "pc (q_setup h env s) = Q_outer \<or> pc (q_setup h env s) = Q_returned"
  by (simp add: q_setup_def Let_def q_pc_cleanup q_pc_alloc)

lemma q_pre_start: "q_pre h (q_setup h env (q_getopt h opts q_init))"
  by (intro q_pre_setup q_pre_getopt q_pre_init)

lemma s_pre_init: "s_pre (s_init env)"
  by (simp add: s_pre_def s_init_def s_sunk_simps s_got_simps)

lemma s_pre_case: "s_pre s \<Longrightarrow> s_pre (s_case opt s)"
  by (cases opt) (simp_all add: s_pre_def s_case_def)

lemma s_pre_getopt: "s_pre s \<Longrightarrow> s_pre (s_getopt opts s)"
  by (induction opts arbitrary: s) (simp_all add: Let_def s_pre_case)

lemma s_pre_log:
  "s_pre s \<Longrightarrow> \<not> s_loop_action a \<Longrightarrow> s_pre (s_log a s)"
  by (cases a) (simp_all add: s_pre_def s_log_def s_sunk_simps s_got_simps)

lemma s_pre_cleanup: "s_pre s \<Longrightarrow> s_pre (s_cleanup s)"
  by (simp add: s_pre_def s_cleanup_def s_log_def s_sunk_simps s_got_simps split: option.splits)

lemma s_pre_upd:
  "s_pre (s\<lparr>rc := r\<rparr>) = s_pre s"
  "s_pre (s\<lparr>xc := x\<rparr>) = s_pre s"
  "s_pre (s\<lparr>fp := f\<rparr>) = s_pre s"
  "s_pre (s\<lparr>spc := p\<rparr>) = s_pre s"
  by (simp_all add: s_pre_def)

lemma s_pre_enter: "s_pre s \<Longrightarrow> s_pre (s_enter s)"
  by (simp add: s_pre_def s_enter_def)

lemma s_pre_sigaction: "s_pre s \<Longrightarrow> s_pre (s_sigaction env sg b s)"
  by (simp add: s_sigaction_def s_pre_upd s_pre_log)

lemma s_pre_switch: "s_pre s \<Longrightarrow> s_pre (s_switch env s)"
  by (simp add: s_switch_def s_pre_upd s_pre_log s_pre_cleanup s_pre_enter split: option.splits)

lemma s_pre_signals: "s_pre s \<Longrightarrow> s_pre (s_signals env s)"
  by (simp add: s_signals_def Let_def s_pre_upd s_pre_log s_pre_cleanup s_pre_sigaction
        s_pre_switch)

lemma s_pre_setup: "s_pre s \<Longrightarrow> s_pre (s_setup env s)"
  by (simp add: s_setup_def Let_def s_pre_upd s_pre_log s_pre_cleanup s_pre_signals)

lemma s_pc_cleanup: "spc (s_cleanup s) = P_returned"
  by (simp add: s_cleanup_def split: option.splits)

lemma s_pc_switch: "spc (s_switch env s) = P_loop \<or> spc (s_switch env s) = P_returned"
  by (simp add: s_switch_def s_enter_def s_pc_cleanup split: option.splits)

lemma s_pc_signals: "spc (s_signals env s) = P_loop \<or> spc (s_signals env s) = P_returned"
  by (simp add: s_signals_def Let_def s_pc_cleanup s_pc_switch)

lemma s_pc_setup: "spc (s_setup env s) = P_loop \<or> spc (s_setup env s) = P_returned"
  by (simp add: s_setup_def Let_def s_pc_cleanup s_pc_signals)

lemma s_pre_start: "s_pre (s_setup env (s_getopt opts (s_init env)))"
  by (intro s_pre_setup s_pre_getopt s_pre_init)

lemma q_flow_step: "q_flow h s \<Longrightarrow> q_flow h (q_step h s ev)"
  unfolding q_flow_def q_step_def
  by (cases ev; cases "pc s")
     (auto simp: q_loop_defs Let_def q_sunk_simps q_got_simps q_inflight_def q_unit_def
           split: option.splits)

lemma q_flow_run: "q_flow h s \<Longrightarrow> q_flow h (foldl (q_step h) s evs)"
  by (induction evs arbitrary: s) (simp_all add: q_flow_step)

lemma q_flow_start: "q_flow h (q_setup h env (q_getopt h opts q_init))"
  using q_pre_start [of h env opts] q_pc_setup [of h env "q_getopt h opts q_init"]
  by (auto simp: q_flow_def q_pre_def q_inflight_def)

lemma s_flow_step: "s_flow s \<Longrightarrow> s_flow (s_step s ev)"
  unfolding s_flow_def s_step_def
  by (cases ev; cases "spc s")
     (auto simp: s_loop_defs Let_def s_sunk_simps s_got_simps s_inflight_def
           split: option.splits event.splits)

lemma s_flow_run: "s_flow s \<Longrightarrow> s_flow (foldl s_step s evs)"
  by (induction evs arbitrary: s) (simp_all add: s_flow_step)

lemma s_flow_start: "s_flow (s_setup env (s_getopt opts (s_init env)))"
  using s_pre_start [of env opts] s_pc_setup [of env "s_getopt opts (s_init env)"]
  by (auto simp: s_flow_def s_pre_def s_inflight_def)

subsection \<open>Units handed to the sink and units taken\<close>

lemma q_taken_simps:
  "q_taken [] = []"
  "q_taken (a # tr)
     = (case a of Q_fwrite u w \<Rightarrow> (if w < 1 then [] else [u]) | _ \<Rightarrow> []) @ q_taken tr"
  by (simp_all add: q_taken_def)

lemma s_taken_simps:
  "s_taken [] = []"
  "s_taken (a # tr)
     = (case a of S_fwrite w n \<Rightarrow> (if n < 1 then [] else [w]) | _ \<Rightarrow> []) @ s_taken tr"
  by (simp_all add: s_taken_def)

lemma q_taken_sunk: "subseq (q_taken tr) (q_sunk tr)"
proof (induction tr)
  case Nil
  then show ?case by (simp add: q_taken_simps q_sunk_simps)
next
  case (Cons a tr)
  then show ?case
    by (cases a) (auto simp: q_taken_simps(2) q_sunk_simps(2))
qed

lemma s_taken_sunk: "subseq (s_taken tr) (s_sunk tr)"
proof (induction tr)
  case Nil
  then show ?case by (simp add: s_taken_simps s_sunk_simps)
next
  case (Cons a tr)
  then show ?case
    by (cases a) (auto simp: s_taken_simps(2) s_sunk_simps(2))
qed

subsection \<open>The counters\<close>

lemma q_tally_step: "q_tally h s \<Longrightarrow> q_tally h (q_step h s ev)"
  unfolding q_tally_def q_step_def
  by (cases ev; cases "pc s")
     (auto simp: q_loop_defs Let_def q_got_simps distrib_right split: option.splits)

lemma q_tally_run: "q_tally h s \<Longrightarrow> q_tally h (foldl (q_step h) s evs)"
  by (induction evs arbitrary: s) (simp_all add: q_tally_step)

lemma q_tally_start: "q_tally h (q_setup h env (q_getopt h opts q_init))"
  using q_pre_start [of h env opts] by (simp add: q_tally_def q_pre_def)

lemma s_tally_step: "s_tally s \<Longrightarrow> s_tally (s_step s ev)"
  unfolding s_tally_def s_step_def
  by (cases ev; cases "spc s")
     (auto simp: s_loop_defs Let_def s_got_simps distrib_right split: option.splits event.splits)

lemma s_tally_run: "s_tally s \<Longrightarrow> s_tally (foldl s_step s evs)"
  by (induction evs arbitrary: s) (simp_all add: s_tally_step)

lemma s_tally_start: "s_tally (s_setup env (s_getopt opts (s_init env)))"
  using s_pre_start [of env opts] by (simp add: s_tally_def s_pre_def)

lemma q_write_counters:
  "reads (q_step h s (WriteRet w)) = reads s \<and> total_v (q_step h s (WriteRet w)) = total_v s"
  by (simp add: q_step_def q_write_def q_log_def Let_def)

lemma s_write_counters:
  "reads (s_step s (WriteRet w)) = reads s \<and> total_v (s_step s (WriteRet w)) = total_v s"
  by (simp add: s_step_def s_write_def s_leave_def s_cleanup_def s_log_def Let_def
        split: option.splits)

lemma q_write_short: "pc s = Q_write \<Longrightarrow> w < 1 \<Longrightarrow> pc (q_step h s (WriteRet w)) = Q_close"
  by (simp add: q_step_def q_write_def q_log_def Let_def)

lemma s_write_short: "spc s = P_write \<Longrightarrow> w < 1 \<Longrightarrow> spc (s_step s (WriteRet w)) = P_returned"
  by (simp add: s_step_def s_write_def s_leave_def s_pc_cleanup Let_def)

text \<open>
  C10. In every run of either tool the counters are raised when the unit is read, before
  its write: bytes-total is reads times the unit size (modulo \<open>2^64\<close>, the width of the
  counters), and reads counts the units handed to the sink plus the one in flight. When
  the pending write then comes back short, the loop is left with both counters still
  counting that unit: they count what was read from the source, not what the sink took.
\<close>

theorem counters_count_units_read:
  "total_v (quantistool h opts env evs) = reads (quantistool h opts env evs) * size_v (quantistool h opts env evs)
   \<and> reads (quantistool h opts env evs)
       = of_nat (length (q_sunk (trace (quantistool h opts env evs)))
                 + length (q_inflight (quantistool h opts env evs)))
   \<and> (pc (quantistool h opts env evs) = Q_write \<and> w < 1 \<longrightarrow>
        pc (q_step h (quantistool h opts env evs) (WriteRet w)) = Q_close
        \<and> reads (q_step h (quantistool h opts env evs) (WriteRet w))
            = of_nat (length (q_sunk (trace (quantistool h opts env evs)))) + 1
        \<and> total_v (q_step h (quantistool h opts env evs) (WriteRet w))
            = (of_nat (length (q_sunk (trace (quantistool h opts env evs)))) + 1)
              * size_v (quantistool h opts env evs))
   \<and> total_v (seventool sopts senv sevs) = reads (seventool sopts senv sevs) * 4
   \<and> reads (seventool sopts senv sevs)
       = of_nat (length (s_sunk (strace (seventool sopts senv sevs)))
                 + length (s_inflight (seventool sopts senv sevs)))
   \<and> (spc (seventool sopts senv sevs) = P_write \<and> w < 1 \<longrightarrow>
        spc (s_step (seventool sopts senv sevs) (WriteRet w)) = P_returned
        \<and> reads (s_step (seventool sopts senv sevs) (WriteRet w))
            = of_nat (length (s_sunk (strace (seventool sopts senv sevs)))) + 1
        \<and> total_v (s_step (seventool sopts senv sevs) (WriteRet w))
            = (of_nat (length (s_sunk (strace (seventool sopts senv sevs)))) + 1) * 4)"
proof -
  define Q where "Q = quantistool h opts env evs"
  define S where "S = seventool sopts senv sevs"
  have qt: "q_tally h Q" unfolding Q_def quantistool_def by (rule q_tally_run [OF q_tally_start])
  have qf: "q_flow h Q" unfolding Q_def quantistool_def by (rule q_flow_run [OF q_flow_start])
  have st: "s_tally S" unfolding S_def seventool_def by (rule s_tally_run [OF s_tally_start])
  have sf: "s_flow S" unfolding S_def seventool_def by (rule s_flow_run [OF s_flow_start])
  have q1: "total_v Q = reads Q * size_v Q" using qt by (simp add: q_tally_def)
  have "length (q_got h (trace Q)) = length (q_sunk (trace Q)) + length (q_inflight Q)"
    using qf by (simp add: q_flow_def flip: length_append)
  then have q2: "reads Q = of_nat (length (q_sunk (trace Q)) + length (q_inflight Q))"
    using qt by (simp add: q_tally_def)
  have q3: "pc Q = Q_write \<and> w < 1 \<longrightarrow>
        pc (q_step h Q (WriteRet w)) = Q_close
        \<and> reads (q_step h Q (WriteRet w)) = of_nat (length (q_sunk (trace Q))) + 1
        \<and> total_v (q_step h Q (WriteRet w)) = (of_nat (length (q_sunk (trace Q))) + 1) * size_v Q"
    using q1 q2 q_write_counters [of h Q w] q_write_short [of Q w h]
    by (auto simp: q_inflight_def)
  have s1: "total_v S = reads S * 4" using st by (simp add: s_tally_def)
  have "length (s_got (strace S)) = length (s_sunk (strace S)) + length (s_inflight S)"
    using sf by (simp add: s_flow_def flip: length_append)
  then have s2: "reads S = of_nat (length (s_sunk (strace S)) + length (s_inflight S))"
    using st by (simp add: s_tally_def)
  have s3: "spc S = P_write \<and> w < 1 \<longrightarrow>
        spc (s_step S (WriteRet w)) = P_returned
        \<and> reads (s_step S (WriteRet w)) = of_nat (length (s_sunk (strace S))) + 1
        \<and> total_v (s_step S (WriteRet w)) = (of_nat (length (s_sunk (strace S))) + 1) * 4"
    using s1 s2 s_write_counters [of S w] s_write_short [of S w]
    by (auto simp: s_inflight_def)
  from q1 q2 q3 s1 s2 s3 show ?thesis unfolding Q_def S_def by blast
qed

theorem counters_count_units_read_witness:
  "pc (quantistool h0 [Opt_r ''1'' 1 True] (qenv0 usb0)
         [Tau, OpenRet 0 (Some 1), Tau, Tau, ReadRet 1 [7]]) = Q_write
   \<and> (0 :: size_t) < 1
   \<and> pc (q_step h0 (quantistool h0 [Opt_r ''1'' 1 True] (qenv0 usb0)
         [Tau, OpenRet 0 (Some 1), Tau, Tau, ReadRet 1 [7]]) (WriteRet 0)) = Q_close
   \<and> reads (q_step h0 (quantistool h0 [Opt_r ''1'' 1 True] (qenv0 usb0)
         [Tau, OpenRet 0 (Some 1), Tau, Tau, ReadRet 1 [7]]) (WriteRet 0)) = 1
   \<and> total_v (q_step h0 (quantistool h0 [Opt_r ''1'' 1 True] (qenv0 usb0)
         [Tau, OpenRet 0 (Some 1), Tau, Tau, ReadRet 1 [7]]) (WriteRet 0)) = 1
   \<and> spc (seventool [] senv0 [Tau, Tau, Tau]) = P_write
   \<and> spc (s_step (seventool [] senv0 [Tau, Tau, Tau]) (WriteRet 0)) = P_returned
   \<and> reads (s_step (seventool [] senv0 [Tau, Tau, Tau]) (WriteRet 0)) = 1
   \<and> total_v (s_step (seventool [] senv0 [Tau, Tau, Tau]) (WriteRet 0)) = 4"
proof -
  have a: "pc (quantistool h0 [Opt_r ''1'' 1 True] (qenv0 usb0)
         [Tau, OpenRet 0 (Some 1), Tau, Tau, ReadRet 1 [7]]) = Q_write"
    by code_simp
  have b: "q_sunk (trace (quantistool h0 [Opt_r ''1'' 1 True] (qenv0 usb0)
         [Tau, OpenRet 0 (Some 1), Tau, Tau, ReadRet 1 [7]])) = []"
    by code_simp
  have c: "size_v (quantistool h0 [Opt_r ''1'' 1 True] (qenv0 usb0)
         [Tau, OpenRet 0 (Some 1), Tau, Tau, ReadRet 1 [7]]) = 1"
    by code_simp
  have d: "spc (seventool [] senv0 [Tau, Tau, Tau]) = P_write"
    by code_simp
  have e: "s_sunk (strace (seventool [] senv0 [Tau, Tau, Tau])) = []"
    by code_simp
  show ?thesis
    using counters_count_units_read [where h = h0 and opts = "[Opt_r ''1'' 1 True]"
        and env = "qenv0 usb0" and evs = "[Tau, OpenRet 0 (Some 1), Tau, Tau, ReadRet 1 [7]]"
        and w = 0 and sopts = "[]" and senv = senv0 and sevs = "[Tau, Tau, Tau]"]
      a b c d e
    by simp
qed

subsection \<open>A short write\<close>

lemma q_returned_run: "pc s = Q_returned \<Longrightarrow> foldl (q_step h) s evs = s"
  by (induction evs) (simp_all add: q_step_def)

lemma s_returned_run: "spc s = P_returned \<Longrightarrow> foldl s_step s evs = s"
  by (induction evs) (simp_all add: s_step_def)

text \<open>
  In seventool.c a short write ends the program: \<^verbatim>\<open>main\<close> returns, whatever the schedule
  holds after it, and the trace ends with the failed write, its error line and the close
  of the output.
\<close>

lemma seventool_short_write_returns:
  assumes "spc s = P_write" and "w < 1"
  shows "foldl s_step s (WriteRet w # evs) = s_step s (WriteRet w)"
    and "spc (s_step s (WriteRet w)) = P_returned"
    and "\<exists>tl. strace (s_step s (WriteRet w))
            = strace s @ [S_fwrite (word_v s) w, S_lerror ''fwrite''] @ tl
          \<and> list_all (\<lambda>a. \<not> s_loop_action a) tl"
proof -
  show r: "spc (s_step s (WriteRet w)) = P_returned"
    using assms by (rule s_write_short)
  show "foldl s_step s (WriteRet w # evs) = s_step s (WriteRet w)"
    using s_returned_run [OF r] by simp
  show "\<exists>tl. strace (s_step s (WriteRet w))
            = strace s @ [S_fwrite (word_v s) w, S_lerror ''fwrite''] @ tl
          \<and> list_all (\<lambda>a. \<not> s_loop_action a) tl"
    using assms
    by (cases "fp s")
       (simp_all add: s_step_def s_write_def s_leave_def s_cleanup_def s_log_def Let_def)
qed

text \<open>
  In quantistool.c a short write with no shutdown requested leads to the close of the
  handle and on to the next \<^verbatim>\<open>QuantisOpen\<close>.
\<close>

lemma q_short_write_reopens:
  assumes "pc s = Q_write" "w < 1" "\<not> done_v s"
  shows "pc (foldl (q_step h) s [WriteRet w, Tau, Tau]) = Q_open"
proof -
  define s1 where "s1 = q_step h s (WriteRet w)"
  define s2 where "s2 = q_step h s1 Tau"
  have 1: "pc s1 = Q_close \<and> \<not> done_v s1"
    using assms by (simp add: s1_def q_step_def q_write_def q_log_def Let_def)
  then have 2: "pc s2 = Q_outer \<and> \<not> done_v s2"
    by (simp add: s2_def q_step_def q_close_def q_log_def split: option.splits)
  then have "pc (q_step h s2 Tau) = Q_open"
    by (simp add: q_step_def q_outer_def)
  then show ?thesis by (simp add: s1_def s2_def)
qed

text \<open>
  C2. In quantistool.c the \<^verbatim>\<open>break\<close> after a short write leaves the inner loop only.
  With read size 1, a device that opens and reads, a first \<^verbatim>\<open>fwrite\<close> that returns 0 and
  no signal, the tool closes the device, opens it again and reads and writes again.
\<close>

theorem quantistool_reads_after_short_write:
  "trace (quantistool h0 [Opt_r ''1'' 1 True] (qenv0 usb0)
     [Tau, OpenRet 0 (Some 1), Tau, Tau, ReadRet 1 [7], WriteRet 0, Tau, Tau,
      OpenRet 0 (Some 2), Tau, Tau, ReadRet 1 [8], WriteRet 1])
   = [Q_query QUANTIS_DEVICE_USB 0 True, Q_malloc 1 True,
      Q_sigaction SIGPIPE False 0, Q_sigaction SIGHUP True 0, Q_sigaction SIGINT True 0,
      Q_Open QUANTIS_DEVICE_USB 0 0 (Some 1),
      Q_Read (Some 1) 1 1 [7], Q_fwrite [7] 0, Q_lerror ''fwrite'', Q_Close 1,
      Q_Open QUANTIS_DEVICE_USB 0 0 (Some 2),
      Q_Read (Some 2) 1 1 [8], Q_fwrite [8] 1]
   \<and> pc (quantistool h0 [Opt_r ''1'' 1 True] (qenv0 usb0)
     [Tau, OpenRet 0 (Some 1), Tau, Tau, ReadRet 1 [7], WriteRet 0, Tau, Tau,
      OpenRet 0 (Some 2), Tau, Tau, ReadRet 1 [8], WriteRet 1]) = Q_inner"
  by code_simp

subsection \<open>Read failures of the hardware device\<close>

text \<open>
  C3. When \<^verbatim>\<open>QuantisReadHandled\<close> fails at the first read of an iteration, the loop
  reads once more on the same handle; when that fails too, it closes the handle and, with
  no shutdown requested, calls \<^verbatim>\<open>QuantisOpen\<close> again. Neither failed read changes a
  counter; the reopen, if it succeeds, raises opens by exactly one and leaves reads and
  bytes-total alone; if the open fails, \<^verbatim>\<open>main\<close> returns. And the program returns from
  the loop in two ways only: the outer test finds the shutdown flag set, or
  \<^verbatim>\<open>QuantisOpen\<close> fails; no read failure ends it.
\<close>

theorem hardware_retry_then_reopen:
  "(pc s = Q_read1 \<and> handle s = Some hdl \<and> \<not> done_v s
      \<and> r1 < QUANTIS_SUCCESS h \<and> r2 < QUANTIS_SUCCESS h \<longrightarrow>
      pc (q_step h s (ReadRet r1 d1)) = Q_read2
      \<and> pc (foldl (q_step h) s [ReadRet r1 d1, ReadRet r2 d2]) = Q_close
      \<and> pc (foldl (q_step h) s [ReadRet r1 d1, ReadRet r2 d2, Tau, Tau]) = Q_open
      \<and> (\<exists>u1 u2. trace (foldl (q_step h) s [ReadRet r1 d1, ReadRet r2 d2, Tau, Tau])
            = trace s @ [Q_Read (Some hdl) (size_v s) r1 u1,
                         Q_lprintf ''QuantisReadHandled try=1'',
                         Q_Read (Some hdl) (size_v s) r2 u2,
                         Q_lprintf ''QuantisReadHandled try=2'',
                         Q_Close hdl])
      \<and> reads (foldl (q_step h) s [ReadRet r1 d1, ReadRet r2 d2, Tau, Tau]) = reads s
      \<and> total_v (foldl (q_step h) s [ReadRet r1 d1, ReadRet r2 d2, Tau, Tau]) = total_v s
      \<and> opens (foldl (q_step h) s [ReadRet r1 d1, ReadRet r2 d2, Tau, Tau]) = opens s
      \<and> (if r3 < QUANTIS_SUCCESS h
         then pc (foldl (q_step h) s
                   [ReadRet r1 d1, ReadRet r2 d2, Tau, Tau, OpenRet r3 hdl']) = Q_returned
         else pc (foldl (q_step h) s
                   [ReadRet r1 d1, ReadRet r2 d2, Tau, Tau, OpenRet r3 hdl']) = Q_inner
              \<and> opens (foldl (q_step h) s
                   [ReadRet r1 d1, ReadRet r2 d2, Tau, Tau, OpenRet r3 hdl']) = opens s + 1
              \<and> reads (foldl (q_step h) s
                   [ReadRet r1 d1, ReadRet r2 d2, Tau, Tau, OpenRet r3 hdl']) = reads s
              \<and> total_v (foldl (q_step h) s
                   [ReadRet r1 d1, ReadRet r2 d2, Tau, Tau, OpenRet r3 hdl']) = total_v s))
   \<and> (pc s \<noteq> Q_returned \<and> pc (q_step h s ev) = Q_returned \<longrightarrow>
        (pc s = Q_outer \<and> done_v s \<and> ev = Tau)
        \<or> (pc s = Q_open \<and> (\<exists>r hdl'. ev = OpenRet r hdl' \<and> r < QUANTIS_SUCCESS h)))"
proof (intro conjI impI)
  assume a: "pc s = Q_read1 \<and> handle s = Some hdl \<and> \<not> done_v s
      \<and> r1 < QUANTIS_SUCCESS h \<and> r2 < QUANTIS_SUCCESS h"
  then show "pc (q_step h s (ReadRet r1 d1)) = Q_read2"
    by (simp add: q_step_def q_loop_defs Let_def)
  from a show "pc (foldl (q_step h) s [ReadRet r1 d1, ReadRet r2 d2]) = Q_close"
    by (simp add: q_step_def q_loop_defs Let_def)
  from a show "pc (foldl (q_step h) s [ReadRet r1 d1, ReadRet r2 d2, Tau, Tau]) = Q_open"
    by (simp add: q_step_def q_loop_defs Let_def)
  from a show "\<exists>u1 u2. trace (foldl (q_step h) s [ReadRet r1 d1, ReadRet r2 d2, Tau, Tau])
            = trace s @ [Q_Read (Some hdl) (size_v s) r1 u1,
                         Q_lprintf ''QuantisReadHandled try=1'',
                         Q_Read (Some hdl) (size_v s) r2 u2,
                         Q_lprintf ''QuantisReadHandled try=2'',
                         Q_Close hdl]"
    by (simp add: q_step_def q_loop_defs Let_def)
  from a show "reads (foldl (q_step h) s [ReadRet r1 d1, ReadRet r2 d2, Tau, Tau]) = reads s"
    by (simp add: q_step_def q_loop_defs Let_def)
  from a show "total_v (foldl (q_step h) s [ReadRet r1 d1, ReadRet r2 d2, Tau, Tau]) = total_v s"
    by (simp add: q_step_def q_loop_defs Let_def)
  from a show "opens (foldl (q_step h) s [ReadRet r1 d1, ReadRet r2 d2, Tau, Tau]) = opens s"
    by (simp add: q_step_def q_loop_defs Let_def)
  from a show "if r3 < QUANTIS_SUCCESS h
         then pc (foldl (q_step h) s
                   [ReadRet r1 d1, ReadRet r2 d2, Tau, Tau, OpenRet r3 hdl']) = Q_returned
         else pc (foldl (q_step h) s
                   [ReadRet r1 d1, ReadRet r2 d2, Tau, Tau, OpenRet r3 hdl']) = Q_inner
              \<and> opens (foldl (q_step h) s
                   [ReadRet r1 d1, ReadRet r2 d2, Tau, Tau, OpenRet r3 hdl']) = opens s + 1
              \<and> reads (foldl (q_step h) s
                   [ReadRet r1 d1, ReadRet r2 d2, Tau, Tau, OpenRet r3 hdl']) = reads s
              \<and> total_v (foldl (q_step h) s
                   [ReadRet r1 d1, ReadRet r2 d2, Tau, Tau, OpenRet r3 hdl']) = total_v s"
    by (simp add: q_step_def q_loop_defs Let_def split: option.splits)
next
  assume "pc s \<noteq> Q_returned \<and> pc (q_step h s ev) = Q_returned"
  then show "(pc s = Q_outer \<and> done_v s \<and> ev = Tau)
        \<or> (pc s = Q_open \<and> (\<exists>r hdl'. ev = OpenRet r hdl' \<and> r < QUANTIS_SUCCESS h))"
    unfolding q_step_def
    by (cases ev; cases "pc s")
       (auto simp: q_loop_defs Let_def split: option.splits if_splits)
qed

theorem hardware_retry_then_reopen_witness:
  "pc (quantistool h0 [Opt_r ''1'' 1 True] (qenv0 usb0) [Tau, OpenRet 0 (Some 1), Tau, Tau]) = Q_read1
   \<and> handle (quantistool h0 [Opt_r ''1'' 1 True] (qenv0 usb0) [Tau, OpenRet 0 (Some 1), Tau, Tau])
       = Some 1
   \<and> \<not> done_v (quantistool h0 [Opt_r ''1'' 1 True] (qenv0 usb0) [Tau, OpenRet 0 (Some 1), Tau, Tau])
   \<and> (- 1 :: int) < QUANTIS_SUCCESS h0
   \<and> pc (foldl (q_step h0)
           (quantistool h0 [Opt_r ''1'' 1 True] (qenv0 usb0) [Tau, OpenRet 0 (Some 1), Tau, Tau])
           [ReadRet (- 1) [], ReadRet (- 1) [], Tau, Tau, OpenRet 0 (Some 2)]) = Q_inner
   \<and> opens (foldl (q_step h0)
           (quantistool h0 [Opt_r ''1'' 1 True] (qenv0 usb0) [Tau, OpenRet 0 (Some 1), Tau, Tau])
           [ReadRet (- 1) [], ReadRet (- 1) [], Tau, Tau, OpenRet 0 (Some 2)]) = 2
   \<and> reads (foldl (q_step h0)
           (quantistool h0 [Opt_r ''1'' 1 True] (qenv0 usb0) [Tau, OpenRet 0 (Some 1), Tau, Tau])
           [ReadRet (- 1) [], ReadRet (- 1) [], Tau, Tau, OpenRet 0 (Some 2)]) = 0
   \<and> pc (quantistool h0 [Opt_r ''1'' 1 True] (qenv0 usb0) [Tau]) = Q_open
   \<and> pc (q_step h0 (quantistool h0 [Opt_r ''1'' 1 True] (qenv0 usb0) [Tau]) (OpenRet (- 1) None))
       = Q_returned"
proof -
  have a: "pc (quantistool h0 [Opt_r ''1'' 1 True] (qenv0 usb0) [Tau, OpenRet 0 (Some 1), Tau, Tau])
             = Q_read1"
    by code_simp
  have b: "handle (quantistool h0 [Opt_r ''1'' 1 True] (qenv0 usb0) [Tau, OpenRet 0 (Some 1), Tau, Tau])
             = Some 1"
    by code_simp
  have c: "\<not> done_v (quantistool h0 [Opt_r ''1'' 1 True] (qenv0 usb0)
             [Tau, OpenRet 0 (Some 1), Tau, Tau])"
    by code_simp
  have d: "opens (quantistool h0 [Opt_r ''1'' 1 True] (qenv0 usb0) [Tau, OpenRet 0 (Some 1), Tau, Tau])
             = 1"
    by code_simp
  have e: "reads (quantistool h0 [Opt_r ''1'' 1 True] (qenv0 usb0) [Tau, OpenRet 0 (Some 1), Tau, Tau])
             = 0"
    by code_simp
  have f: "QUANTIS_SUCCESS h0 = 0"
    by (simp add: h0_def)
  have g: "pc (quantistool h0 [Opt_r ''1'' 1 True] (qenv0 usb0) [Tau]) = Q_open"
    by code_simp
  have i: "pc (q_step h0 (quantistool h0 [Opt_r ''1'' 1 True] (qenv0 usb0) [Tau]) (OpenRet (- 1) None))
             = Q_returned"
    by code_simp
  show ?thesis
    using hardware_retry_then_reopen [where h = h0
        and s = "quantistool h0 [Opt_r ''1'' 1 True] (qenv0 usb0) [Tau, OpenRet 0 (Some 1), Tau, Tau]"
        and hdl = 1 and ?r1.0 = "- 1" and ?r2.0 = "- 1" and ?d1.0 = "[]" and ?d2.0 = "[]"
        and ?r3.0 = 0 and hdl' = "Some 2"]
      a b c d e f g i
    by simp
qed

subsection \<open>What a successful read and an open count\<close>

lemma q_try_step: "try_v (q_step h s ev) = try_v s"
  unfolding q_step_def
  by (cases ev; cases "pc s") (auto simp: q_loop_defs Let_def split: option.splits)

text \<open>
  C4, as the code has it. quantistool.c declares \<^verbatim>\<open>int try = 0\<close> and never touches it
  again: no event changes it. A successful \<^verbatim>\<open>QuantisReadHandled\<close>, first or second,
  raises reads by one and bytes-total by the read size and leaves opens alone; a
  successful \<^verbatim>\<open>QuantisOpen\<close> raises opens by one, a failed one does not. In seventool.c
  an attempt that reaches line 344 with \<^verbatim>\<open>carry\<close> set raises tries and reads by one and
  bytes-total by 4; the tool has no opens counter.
\<close>

theorem counters_per_successful_read:
  "try_v (q_step h s ev) = try_v s
   \<and> ((pc s = Q_read1 \<or> pc s = Q_read2) \<and> \<not> r < QUANTIS_SUCCESS h \<longrightarrow>
        pc (q_step h s (ReadRet r d)) = Q_write
        \<and> reads (q_step h s (ReadRet r d)) = reads s + 1
        \<and> total_v (q_step h s (ReadRet r d)) = total_v s + size_v s
        \<and> opens (q_step h s (ReadRet r d)) = opens s)
   \<and> (pc s = Q_open \<longrightarrow>
        opens (q_step h s (OpenRet r hdl))
          = (if r < QUANTIS_SUCCESS h then opens s else opens s + 1)
        \<and> reads (q_step h s (OpenRet r hdl)) = reads s
        \<and> total_v (q_step h s (OpenRet r hdl)) = total_v s)
   \<and> (spc t = P_sample \<and> mode_v t \<noteq> FAIL \<longrightarrow>
        spc (s_step t (SampleRet w True)) = P_write
        \<and> tries (s_step t (SampleRet w True)) = tries t + 1
        \<and> reads (s_step t (SampleRet w True)) = reads t + 1
        \<and> total_v (s_step t (SampleRet w True)) = total_v t + 4)
   \<and> (spc t = P_sample \<and> mode_v t = FAIL \<and> carry t \<noteq> 0 \<longrightarrow>
        spc (s_step t Tau) = P_write
        \<and> tries (s_step t Tau) = tries t + 1
        \<and> reads (s_step t Tau) = reads t + 1
        \<and> total_v (s_step t Tau) = total_v t + 4)"
proof (intro conjI impI)
  show "try_v (q_step h s ev) = try_v s" by (rule q_try_step)
next
  assume a: "(pc s = Q_read1 \<or> pc s = Q_read2) \<and> \<not> r < QUANTIS_SUCCESS h"
  then show "pc (q_step h s (ReadRet r d)) = Q_write"
    by (auto simp: q_step_def q_loop_defs Let_def)
  from a show "reads (q_step h s (ReadRet r d)) = reads s + 1"
    by (auto simp: q_step_def q_loop_defs Let_def)
  from a show "total_v (q_step h s (ReadRet r d)) = total_v s + size_v s"
    by (auto simp: q_step_def q_loop_defs Let_def)
  from a show "opens (q_step h s (ReadRet r d)) = opens s"
    by (auto simp: q_step_def q_loop_defs Let_def)
next
  assume a: "pc s = Q_open"
  then show "opens (q_step h s (OpenRet r hdl))
          = (if r < QUANTIS_SUCCESS h then opens s else opens s + 1)"
    by (simp add: q_step_def q_loop_defs Let_def split: option.splits)
  from a show "reads (q_step h s (OpenRet r hdl)) = reads s"
    by (simp add: q_step_def q_loop_defs Let_def split: option.splits)
  from a show "total_v (q_step h s (OpenRet r hdl)) = total_v s"
    by (simp add: q_step_def q_loop_defs Let_def split: option.splits)
next
  assume a: "spc t = P_sample \<and> mode_v t \<noteq> FAIL"
  then have m: "mode_v t = RDRAND \<or> mode_v t = RDSEED" by (cases "mode_v t") simp_all
  from a m show "spc (s_step t (SampleRet w True)) = P_write"
    by (auto simp: s_step_def s_loop_defs Let_def)
  from a m show "tries (s_step t (SampleRet w True)) = tries t + 1"
    by (auto simp: s_step_def s_loop_defs Let_def)
  from a m show "reads (s_step t (SampleRet w True)) = reads t + 1"
    by (auto simp: s_step_def s_loop_defs Let_def)
  from a m show "total_v (s_step t (SampleRet w True)) = total_v t + 4"
    by (auto simp: s_step_def s_loop_defs Let_def)
next
  assume a: "spc t = P_sample \<and> mode_v t = FAIL \<and> carry t \<noteq> 0"
  then show "spc (s_step t Tau) = P_write"
    by (simp add: s_step_def s_loop_defs Let_def)
  from a show "tries (s_step t Tau) = tries t + 1"
    by (simp add: s_step_def s_loop_defs Let_def)
  from a show "reads (s_step t Tau) = reads t + 1"
    by (simp add: s_step_def s_loop_defs Let_def)
  from a show "total_v (s_step t Tau) = total_v t + 4"
    by (simp add: s_step_def s_loop_defs Let_def)
qed

text \<open>
  The claim as it was stated fails on quantistool.c: after a successful read, reads has
  gone up and the attempts counter has not.
\<close>

theorem quantistool_attempts_not_counted:
  "reads (quantistool h0 [Opt_r ''1'' 1 True] (qenv0 usb0)
            [Tau, OpenRet 0 (Some 1), Tau, Tau, ReadRet 1 [7]])
     = reads (quantistool h0 [Opt_r ''1'' 1 True] (qenv0 usb0)
            [Tau, OpenRet 0 (Some 1), Tau, Tau]) + 1
   \<and> \<not> try_v (quantistool h0 [Opt_r ''1'' 1 True] (qenv0 usb0)
            [Tau, OpenRet 0 (Some 1), Tau, Tau, ReadRet 1 [7]])
       = try_v (quantistool h0 [Opt_r ''1'' 1 True] (qenv0 usb0)
            [Tau, OpenRet 0 (Some 1), Tau, Tau]) + 1"
  by code_simp

theorem counters_per_successful_read_witness:
  "pc (quantistool h0 [Opt_r ''1'' 1 True] (qenv0 usb0) [Tau, OpenRet 0 (Some 1), Tau, Tau]) = Q_read1
   \<and> \<not> (1 :: int) < QUANTIS_SUCCESS h0
   \<and> reads (q_step h0
        (quantistool h0 [Opt_r ''1'' 1 True] (qenv0 usb0) [Tau, OpenRet 0 (Some 1), Tau, Tau])
        (ReadRet 1 [7])) = 1
   \<and> total_v (q_step h0
        (quantistool h0 [Opt_r ''1'' 1 True] (qenv0 usb0) [Tau, OpenRet 0 (Some 1), Tau, Tau])
        (ReadRet 1 [7])) = 1
   \<and> pc (quantistool h0 [Opt_r ''1'' 1 True] (qenv0 usb0) [Tau]) = Q_open
   \<and> opens (q_step h0 (quantistool h0 [Opt_r ''1'' 1 True] (qenv0 usb0) [Tau]) (OpenRet 1 (Some 1)))
       = 1
   \<and> spc (seventool [SOpt_R] senv0 [Tau, Tau]) = P_sample
   \<and> mode_v (seventool [SOpt_R] senv0 [Tau, Tau]) \<noteq> FAIL
   \<and> tries (s_step (seventool [SOpt_R] senv0 [Tau, Tau]) (SampleRet 5 True)) = 1
   \<and> reads (s_step (seventool [SOpt_R] senv0 [Tau, Tau]) (SampleRet 5 True)) = 1
   \<and> total_v (s_step (seventool [SOpt_R] senv0 [Tau, Tau]) (SampleRet 5 True)) = 4"
proof -
  have a: "pc (quantistool h0 [Opt_r ''1'' 1 True] (qenv0 usb0) [Tau, OpenRet 0 (Some 1), Tau, Tau])
             = Q_read1"
    by code_simp
  have b: "reads (quantistool h0 [Opt_r ''1'' 1 True] (qenv0 usb0) [Tau, OpenRet 0 (Some 1), Tau, Tau])
             = 0"
    by code_simp
  have c: "total_v (quantistool h0 [Opt_r ''1'' 1 True] (qenv0 usb0)
             [Tau, OpenRet 0 (Some 1), Tau, Tau]) = 0"
    by code_simp
  have d: "size_v (quantistool h0 [Opt_r ''1'' 1 True] (qenv0 usb0)
             [Tau, OpenRet 0 (Some 1), Tau, Tau]) = 1"
    by code_simp
  have e: "QUANTIS_SUCCESS h0 = 0"
    by (simp add: h0_def)
  have f: "pc (quantistool h0 [Opt_r ''1'' 1 True] (qenv0 usb0) [Tau]) = Q_open"
    by code_simp
  have g: "opens (quantistool h0 [Opt_r ''1'' 1 True] (qenv0 usb0) [Tau]) = 0"
    by code_simp
  have i: "spc (seventool [SOpt_R] senv0 [Tau, Tau]) = P_sample"
    by code_simp
  have j: "mode_v (seventool [SOpt_R] senv0 [Tau, Tau]) = RDRAND"
    by code_simp
  have k: "tries (seventool [SOpt_R] senv0 [Tau, Tau]) = 0"
    by code_simp
  have l: "reads (seventool [SOpt_R] senv0 [Tau, Tau]) = 0"
    by code_simp
  have m: "total_v (seventool [SOpt_R] senv0 [Tau, Tau]) = 0"
    by code_simp
  have q1: "reads (q_step h0
        (quantistool h0 [Opt_r ''1'' 1 True] (qenv0 usb0) [Tau, OpenRet 0 (Some 1), Tau, Tau])
        (ReadRet 1 [7])) = 1
     \<and> total_v (q_step h0
        (quantistool h0 [Opt_r ''1'' 1 True] (qenv0 usb0) [Tau, OpenRet 0 (Some 1), Tau, Tau])
        (ReadRet 1 [7])) = 1"
    using counters_per_successful_read [where h = h0
        and s = "quantistool h0 [Opt_r ''1'' 1 True] (qenv0 usb0) [Tau, OpenRet 0 (Some 1), Tau, Tau]"
        and r = 1 and d = "[7]"]
      a b c d e
    by simp
  have q2: "opens (q_step h0 (quantistool h0 [Opt_r ''1'' 1 True] (qenv0 usb0) [Tau])
              (OpenRet 1 (Some 1))) = 1"
    using counters_per_successful_read [where h = h0
        and s = "quantistool h0 [Opt_r ''1'' 1 True] (qenv0 usb0) [Tau]"
        and r = 1 and hdl = "Some 1"]
      e f g
    by simp
  have q3: "tries (s_step (seventool [SOpt_R] senv0 [Tau, Tau]) (SampleRet 5 True)) = 1
     \<and> reads (s_step (seventool [SOpt_R] senv0 [Tau, Tau]) (SampleRet 5 True)) = 1
     \<and> total_v (s_step (seventool [SOpt_R] senv0 [Tau, Tau]) (SampleRet 5 True)) = 4"
    using counters_per_successful_read [where t = "seventool [SOpt_R] senv0 [Tau, Tau]"
        and w = 5]
      i j k l m
    by simp
  from a e f i j q1 q2 q3 show ?thesis by simp
qed

subsection \<open>The availability check and the read size zero\<close>

lemma query_units:
  "fold (query_unit l want un ty) (map int [0 ..< n]) r
     = (r \<or> (want = ty \<and> 0 \<le> un \<and> un < int n \<and> QuantisGetModulesStatus l ty un \<noteq> 0))"
proof (induction n)
  case 0
  then show ?case by auto
next
  case (Suc n)
  have "fold (query_unit l want un ty) (map int [0 ..< Suc n]) r
          = query_unit l want un ty (int n) (fold (query_unit l want un ty) (map int [0 ..< n]) r)"
    by simp
  also have "\<dots> = query_unit l want un ty (int n)
          (r \<or> (want = ty \<and> 0 \<le> un \<and> un < int n \<and> QuantisGetModulesStatus l ty un \<noteq> 0))"
    by (simp only: Suc.IH)
  also have "\<dots> = (r \<or> (want = ty \<and> 0 \<le> un \<and> un < int (Suc n)
                        \<and> QuantisGetModulesStatus l ty un \<noteq> 0))"
    by (auto simp: query_unit_def)
  finally show ?case .
qed

lemma query_types:
  "query_type l want un ty r
     = (r \<or> (want = ty \<and> 0 \<le> un \<and> un < QuantisCount l ty
              \<and> QuantisGetModulesStatus l ty un \<noteq> 0))"
  by (auto simp: query_type_def Let_def query_units)

text \<open>
  \<^verbatim>\<open>query\<close> returns true exactly when the wanted type has a unit of the wanted index and
  that unit's status word is not zero.
\<close>

lemma query_iff:
  "query l want un
     \<longleftrightarrow> 0 \<le> un \<and> un < QuantisCount l want \<and> QuantisGetModulesStatus l want un \<noteq> 0"
  by (cases want) (auto simp: query_def TYPES_def query_types)

lemma q_case_keeps:
  "fp (q_case h opt s) = fp s \<and> buffer (q_case h opt s) = buffer s"
  by (cases opt) (simp_all add: q_case_def q_log_def Let_def)

lemma q_getopt_keeps:
  "fp (q_getopt h opts s) = fp s \<and> buffer (q_getopt h opts s) = buffer s"
  by (induction opts arbitrary: s) (simp_all add: Let_def q_case_keeps)

lemma q_case_ok:
  "\<not> error_v s \<Longrightarrow> \<not> error_v (q_case h opt s)
     \<Longrightarrow> xc (q_case h opt s) = xc s \<and> trace (q_case h opt s) = trace s"
  by (cases opt) (simp_all add: q_case_def q_log_def Let_def split: if_splits)

lemma q_getopt_ok:
  "\<not> error_v s \<Longrightarrow> \<not> error_v (q_getopt h opts s)
     \<Longrightarrow> xc (q_getopt h opts s) = xc s \<and> trace (q_getopt h opts s) = trace s"
proof (induction opts arbitrary: s)
  case Nil
  then show ?case by simp
next
  case (Cons opt opts)
  from Cons.prems have e: "\<not> error_v (q_case h opt s)"
    by (auto simp: Let_def split: if_splits)
  with Cons.prems have "\<not> error_v (q_getopt h opts (q_case h opt s))"
    by (simp add: Let_def)
  with e Cons.IH [of "q_case h opt s"] q_case_ok [OF Cons.prems(1) e]
  show ?case by (simp add: Let_def)
qed

lemma q_case_quiet:
  "list_all q_quiet (trace s) \<Longrightarrow> list_all q_quiet (trace (q_case h opt s))"
  by (cases opt) (simp_all add: q_case_def q_log_def Let_def q_quiet_def)

lemma q_getopt_quiet:
  "list_all q_quiet (trace s) \<Longrightarrow> list_all q_quiet (trace (q_getopt h opts s))"
  by (induction opts arbitrary: s) (simp_all add: Let_def q_case_quiet)

lemma q_parsed_facts:
  "fp (q_parsed h opts) = Some Stdout"
  "buffer (q_parsed h opts) = None"
  "list_all q_quiet (trace (q_parsed h opts))"
  "\<not> error_v (q_parsed h opts) \<Longrightarrow> xc (q_parsed h opts) = 1"
  "\<not> error_v (q_parsed h opts) \<Longrightarrow> trace (q_parsed h opts) = []"
proof -
  show "fp (q_parsed h opts) = Some Stdout" "buffer (q_parsed h opts) = None"
    using q_getopt_keeps [of h opts q_init] by (simp_all add: q_parsed_def q_init_def)
  show "list_all q_quiet (trace (q_parsed h opts))"
    unfolding q_parsed_def by (rule q_getopt_quiet) (simp add: q_init_def)
  have i: "\<not> error_v q_init" by (simp add: q_init_def)
  show "\<not> error_v (q_parsed h opts) \<Longrightarrow> xc (q_parsed h opts) = 1"
    using q_getopt_ok [OF i, of h opts] by (simp add: q_parsed_def q_init_def)
  show "\<not> error_v (q_parsed h opts) \<Longrightarrow> trace (q_parsed h opts) = []"
    using q_getopt_ok [OF i, of h opts] by (simp add: q_parsed_def q_init_def)
qed

lemma quantistool_parsed:
  "quantistool h opts env evs = foldl (q_step h) (q_setup h env (q_parsed h opts)) evs"
  by (simp add: quantistool_def q_parsed_def)

text \<open>The setup when the check is asked for and the query fails.\<close>

lemma q_setup_absent:
  assumes "\<not> error_v s" "check s" "\<not> (daemonize s \<and> daemon_rc env < 0)"
    and "\<not> query (lib env) (type_v s) (sint (unit_v s))"
    and "fp s = Some Stdout" "buffer s = None"
  shows "pc (q_setup h env s) = Q_returned"
    and "xc (q_setup h env s) = xc s"
    and "trace (q_setup h env s)
           = trace s @ (if daemonize s then [Q_daemon (daemon_rc env)] else [])
             @ [Q_query (type_v s) (sint (unit_v s)) False, Q_fclose Stdout]"
  using assms by (auto simp: q_setup_def q_cleanup_def q_log_def Let_def)

text \<open>The setup when the read size is zero.\<close>

lemma q_setup_zero:
  assumes "size_v s = 0" "fp s = Some Stdout" "buffer s = None"
  shows "pc (q_setup h env s) = Q_returned"
    and "list_all q_quiet (trace s) \<Longrightarrow> list_all q_quiet (trace (q_setup h env s))"
    and "\<not> error_v s \<Longrightarrow> \<not> (daemonize s \<and> daemon_rc env < 0)
           \<Longrightarrow> (check s \<longrightarrow> query (lib env) (type_v s) (sint (unit_v s)))
           \<Longrightarrow> xc (q_setup h env s) = 0
               \<and> trace (q_setup h env s)
                   = trace s @ (if daemonize s then [Q_daemon (daemon_rc env)] else [])
                     @ [Q_query (type_v s) (sint (unit_v s))
                          (query (lib env) (type_v s) (sint (unit_v s))),
                        Q_fclose Stdout]"
  using assms by (auto simp: q_setup_def q_cleanup_def q_log_def Let_def q_quiet_def)

text \<open>
  C5, as the code has it. When the command line parses without error, \<^verbatim>\<open>-c\<close> is
  given, \<^verbatim>\<open>daemon\<close> does not fail, and the wanted unit is absent or its status word is
  zero, \<^verbatim>\<open>main\<close> returns right after the query, whatever the schedule: it has not
  allocated, opened the output or touched the device, it only closes standard output, and
  its exit code is the initial 1.
\<close>

theorem check_absent_exits_with_one:
  "\<not> error_v (q_parsed h opts) \<and> check (q_parsed h opts)
   \<and> \<not> (daemonize (q_parsed h opts) \<and> daemon_rc env < 0)
   \<and> (\<not> (0 \<le> sint (unit_v (q_parsed h opts))
           \<and> sint (unit_v (q_parsed h opts))
               < QuantisCount (lib env) (type_v (q_parsed h opts)))
        \<or> QuantisGetModulesStatus (lib env) (type_v (q_parsed h opts))
             (sint (unit_v (q_parsed h opts))) = 0)
   \<longrightarrow> q_exit (quantistool h opts env evs) = Some 1
       \<and> trace (quantistool h opts env evs)
           = (if daemonize (q_parsed h opts) then [Q_daemon (daemon_rc env)] else [])
             @ [Q_query (type_v (q_parsed h opts)) (sint (unit_v (q_parsed h opts))) False,
                Q_fclose Stdout]"
proof
  define s where "s = q_parsed h opts"
  assume a: "\<not> error_v (q_parsed h opts) \<and> check (q_parsed h opts)
   \<and> \<not> (daemonize (q_parsed h opts) \<and> daemon_rc env < 0)
   \<and> (\<not> (0 \<le> sint (unit_v (q_parsed h opts))
           \<and> sint (unit_v (q_parsed h opts))
               < QuantisCount (lib env) (type_v (q_parsed h opts)))
        \<or> QuantisGetModulesStatus (lib env) (type_v (q_parsed h opts))
             (sint (unit_v (q_parsed h opts))) = 0)"
  then have e: "\<not> error_v s" and c: "check s" and d: "\<not> (daemonize s \<and> daemon_rc env < 0)"
    and q: "\<not> query (lib env) (type_v s) (sint (unit_v s))"
    by (auto simp: s_def query_iff)
  have f: "fp s = Some Stdout" and b: "buffer s = None"
    by (simp_all add: s_def q_parsed_facts)
  have x: "xc s = 1" and t: "trace s = []"
    using e by (simp_all add: s_def q_parsed_facts)
  have r: "pc (q_setup h env s) = Q_returned"
    by (rule q_setup_absent(1) [OF e c d q f b])
  have run: "quantistool h opts env evs = q_setup h env s"
    using q_returned_run [OF r] by (simp add: quantistool_parsed s_def)
  have "q_exit (q_setup h env s) = Some 1"
    using r x q_setup_absent(2) [OF e c d q f b, of h] by (simp add: q_exit_def)
  moreover have "trace (q_setup h env s)
           = (if daemonize s then [Q_daemon (daemon_rc env)] else [])
             @ [Q_query (type_v s) (sint (unit_v s)) False, Q_fclose Stdout]"
    using t q_setup_absent(3) [OF e c d q f b, of h] by simp
  ultimately show "q_exit (quantistool h opts env evs) = Some 1
       \<and> trace (quantistool h opts env evs)
           = (if daemonize (q_parsed h opts) then [Q_daemon (daemon_rc env)] else [])
             @ [Q_query (type_v (q_parsed h opts)) (sint (unit_v (q_parsed h opts))) False,
                Q_fclose Stdout]"
    unfolding run by (simp add: s_def)
qed

text \<open>
  The claim as it was stated fails: with \<^verbatim>\<open>-c\<close> and no device the exit code is 1,
  not 0.
\<close>

theorem check_absent_exit_code_not_zero:
  "check (q_parsed h0 [Opt_c])
   \<and> QuantisCount no_device QUANTIS_DEVICE_USB = 0
   \<and> q_exit (quantistool h0 [Opt_c] (qenv0 no_device) []) = Some 1
   \<and> q_exit (quantistool h0 [Opt_c] (qenv0 no_device) []) \<noteq> Some 0"
  by code_simp

theorem check_absent_exits_with_one_witness:
  "\<not> error_v (q_parsed h0 [Opt_c]) \<and> check (q_parsed h0 [Opt_c])
   \<and> \<not> daemonize (q_parsed h0 [Opt_c])
   \<and> QuantisCount (lib (qenv0 no_device)) (type_v (q_parsed h0 [Opt_c])) = 0
   \<and> q_exit (quantistool h0 [Opt_c] (qenv0 no_device) [Tau, Sig SIGHUP]) = Some 1
   \<and> trace (quantistool h0 [Opt_c] (qenv0 no_device) [Tau, Sig SIGHUP])
       = [Q_query QUANTIS_DEVICE_USB 0 False, Q_fclose Stdout]"
proof -
  have a: "\<not> error_v (q_parsed h0 [Opt_c])" by code_simp
  have b: "check (q_parsed h0 [Opt_c])" by code_simp
  have c: "\<not> daemonize (q_parsed h0 [Opt_c])" by code_simp
  have d: "QuantisCount (lib (qenv0 no_device)) (type_v (q_parsed h0 [Opt_c])) = 0"
    by code_simp
  have e: "sint (unit_v (q_parsed h0 [Opt_c])) = 0" by code_simp
  have f: "type_v (q_parsed h0 [Opt_c]) = QUANTIS_DEVICE_USB" by code_simp
  show ?thesis
    using check_absent_exits_with_one [where h = h0 and opts = "[Opt_c]"
        and env = "qenv0 no_device" and evs = "[Tau, Sig SIGHUP]"]
      a b c d e f
    by simp
qed

text \<open>
  C7, as the code has it. With a read size of zero \<^verbatim>\<open>main\<close> returns from the setup,
  whatever the schedule, and has neither allocated a buffer, nor opened the output path,
  nor touched the device. When moreover the command line parsed without error,
  \<^verbatim>\<open>daemon\<close> did not fail, and the query did not fail under \<^verbatim>\<open>-c\<close>, it has run the
  query and its exit code is 0.
\<close>

theorem zero_size_checks_only:
  "size_v (q_parsed h opts) = 0 \<longrightarrow>
     pc (quantistool h opts env evs) = Q_returned
     \<and> list_all q_quiet (trace (quantistool h opts env evs))
     \<and> (\<not> error_v (q_parsed h opts)
         \<and> \<not> (daemonize (q_parsed h opts) \<and> daemon_rc env < 0)
         \<and> (check (q_parsed h opts) \<longrightarrow>
               query (lib env) (type_v (q_parsed h opts)) (sint (unit_v (q_parsed h opts))))
         \<longrightarrow> q_exit (quantistool h opts env evs) = Some 0
             \<and> trace (quantistool h opts env evs)
                 = (if daemonize (q_parsed h opts) then [Q_daemon (daemon_rc env)] else [])
                   @ [Q_query (type_v (q_parsed h opts)) (sint (unit_v (q_parsed h opts)))
                        (query (lib env) (type_v (q_parsed h opts))
                           (sint (unit_v (q_parsed h opts)))),
                      Q_fclose Stdout])"
proof
  define s where "s = q_parsed h opts"
  assume "size_v (q_parsed h opts) = 0"
  then have z: "size_v s = 0" by (simp add: s_def)
  have f: "fp s = Some Stdout" and b: "buffer s = None" and qt: "list_all q_quiet (trace s)"
    by (simp_all add: s_def q_parsed_facts)
  have r: "pc (q_setup h env s) = Q_returned"
    by (rule q_setup_zero(1) [OF z f b])
  have run: "quantistool h opts env evs = q_setup h env s"
    using q_returned_run [OF r] by (simp add: quantistool_parsed s_def)
  have 1: "list_all q_quiet (trace (q_setup h env s))"
    by (rule q_setup_zero(2) [OF z f b qt])
  have 2: "\<not> error_v s \<and> \<not> (daemonize s \<and> daemon_rc env < 0)
         \<and> (check s \<longrightarrow> query (lib env) (type_v s) (sint (unit_v s)))
         \<longrightarrow> q_exit (q_setup h env s) = Some 0
             \<and> trace (q_setup h env s)
                 = (if daemonize s then [Q_daemon (daemon_rc env)] else [])
                   @ [Q_query (type_v s) (sint (unit_v s))
                        (query (lib env) (type_v s) (sint (unit_v s))),
                      Q_fclose Stdout]"
  proof
    assume a: "\<not> error_v s \<and> \<not> (daemonize s \<and> daemon_rc env < 0)
         \<and> (check s \<longrightarrow> query (lib env) (type_v s) (sint (unit_v s)))"
    then have t: "trace s = []" by (simp add: s_def q_parsed_facts)
    from a have "xc (q_setup h env s) = 0
               \<and> trace (q_setup h env s)
                   = trace s @ (if daemonize s then [Q_daemon (daemon_rc env)] else [])
                     @ [Q_query (type_v s) (sint (unit_v s))
                          (query (lib env) (type_v s) (sint (unit_v s))),
                        Q_fclose Stdout]"
      by (intro q_setup_zero(3) [OF z f b]) simp_all
    with r t show "q_exit (q_setup h env s) = Some 0
             \<and> trace (q_setup h env s)
                 = (if daemonize s then [Q_daemon (daemon_rc env)] else [])
                   @ [Q_query (type_v s) (sint (unit_v s))
                        (query (lib env) (type_v s) (sint (unit_v s))),
                      Q_fclose Stdout]"
      by (simp add: q_exit_def)
  qed
  from r 1 2 show "pc (quantistool h opts env evs) = Q_returned
     \<and> list_all q_quiet (trace (quantistool h opts env evs))
     \<and> (\<not> error_v (q_parsed h opts)
         \<and> \<not> (daemonize (q_parsed h opts) \<and> daemon_rc env < 0)
         \<and> (check (q_parsed h opts) \<longrightarrow>
               query (lib env) (type_v (q_parsed h opts)) (sint (unit_v (q_parsed h opts))))
         \<longrightarrow> q_exit (quantistool h opts env evs) = Some 0
             \<and> trace (quantistool h opts env evs)
                 = (if daemonize (q_parsed h opts) then [Q_daemon (daemon_rc env)] else [])
                   @ [Q_query (type_v (q_parsed h opts)) (sint (unit_v (q_parsed h opts)))
                        (query (lib env) (type_v (q_parsed h opts))
                           (sint (unit_v (q_parsed h opts)))),
                      Q_fclose Stdout])"
    unfolding run s_def by blast
qed

text \<open>
  The claim as it was stated fails: with read size zero, \<^verbatim>\<open>-c\<close> and no device the exit
  code is 1.
\<close>

theorem zero_size_exit_code_not_zero:
  "size_v (q_parsed h0 [Opt_r ''0'' 0 True, Opt_c]) = 0
   \<and> q_exit (quantistool h0 [Opt_r ''0'' 0 True, Opt_c] (qenv0 no_device) []) = Some 1
   \<and> q_exit (quantistool h0 [Opt_r ''0'' 0 True, Opt_c] (qenv0 no_device) []) \<noteq> Some 0"
  by code_simp

theorem zero_size_checks_only_witness:
  "size_v (q_parsed h0 [Opt_v, Opt_u 0, Opt_r ''0'' 0 True]) = 0
   \<and> \<not> error_v (q_parsed h0 [Opt_v, Opt_u 0, Opt_r ''0'' 0 True])
   \<and> \<not> daemonize (q_parsed h0 [Opt_v, Opt_u 0, Opt_r ''0'' 0 True])
   \<and> \<not> check (q_parsed h0 [Opt_v, Opt_u 0, Opt_r ''0'' 0 True])
   \<and> pc (quantistool h0 [Opt_v, Opt_u 0, Opt_r ''0'' 0 True] (qenv0 usb0) [Tau]) = Q_returned
   \<and> q_exit (quantistool h0 [Opt_v, Opt_u 0, Opt_r ''0'' 0 True] (qenv0 usb0) [Tau]) = Some 0
   \<and> trace (quantistool h0 [Opt_v, Opt_u 0, Opt_r ''0'' 0 True] (qenv0 usb0) [Tau])
       = [Q_query QUANTIS_DEVICE_USB 0 True, Q_fclose Stdout]"
proof -
  have a: "size_v (q_parsed h0 [Opt_v, Opt_u 0, Opt_r ''0'' 0 True]) = 0" by code_simp
  have b: "\<not> error_v (q_parsed h0 [Opt_v, Opt_u 0, Opt_r ''0'' 0 True])" by code_simp
  have c: "\<not> daemonize (q_parsed h0 [Opt_v, Opt_u 0, Opt_r ''0'' 0 True])" by code_simp
  have d: "\<not> check (q_parsed h0 [Opt_v, Opt_u 0, Opt_r ''0'' 0 True])" by code_simp
  have e: "sint (unit_v (q_parsed h0 [Opt_v, Opt_u 0, Opt_r ''0'' 0 True])) = 0" by code_simp
  have f: "type_v (q_parsed h0 [Opt_v, Opt_u 0, Opt_r ''0'' 0 True]) = QUANTIS_DEVICE_USB"
    by code_simp
  have g: "query (lib (qenv0 usb0)) QUANTIS_DEVICE_USB 0" by code_simp
  show ?thesis
    using zero_size_checks_only [where h = h0 and opts = "[Opt_v, Opt_u 0, Opt_r ''0'' 0 True]"
        and env = "qenv0 usb0" and evs = "[Tau]"]
      a b c d e f g
    by simp
qed

subsection \<open>The instruction sampler\<close>

lemma s_ready_cleanup: "s_ready (s_cleanup s)"
  by (simp add: s_ready_def s_pc_cleanup)

lemma s_ready_switch: "s_ready (s_switch env s)"
  by (simp add: s_switch_def s_enter_def s_ready_cleanup s_log_def split: option.splits)
     (simp add: s_ready_def)

lemma s_ready_signals: "s_ready (s_signals env s)"
  by (simp add: s_signals_def Let_def s_ready_cleanup s_ready_switch)

lemma s_ready_setup: "s_ready (s_setup env s)"
  by (simp add: s_setup_def Let_def s_ready_cleanup s_ready_signals)

lemma s_ready_step: "s_ready s \<Longrightarrow> s_ready (s_step s ev)"
  unfolding s_ready_def s_step_def
  by (cases ev; cases "spc s")
     (auto simp: s_loop_defs Let_def split: option.splits event.splits)

lemma s_ready_run: "s_ready s \<Longrightarrow> s_ready (foldl s_step s evs)"
  by (induction evs arbitrary: s) (simp_all add: s_ready_step)

lemma s_ready_seventool: "s_ready (seventool opts env evs)"
  unfolding seventool_def by (rule s_ready_run [OF s_ready_setup])

lemma s_mode_step: "mode_v (s_step s ev) = mode_v s"
  unfolding s_step_def
  by (cases ev; cases "spc s")
     (auto simp: s_loop_defs Let_def split: option.splits event.splits)

lemma s_mode_run: "mode_v (foldl s_step s evs) = mode_v s"
  by (induction evs arbitrary: s) (simp_all add: s_mode_step)

lemma s_mode_setup: "mode_v (s_setup env s) = mode_v s"
  by (simp add: s_setup_defs Let_def split: option.splits)

lemma s_mode_seventool: "mode_v (seventool opts env evs) = mode_v (s_parsed opts env)"
  by (simp add: seventool_def s_parsed_def s_mode_run s_mode_setup)

text \<open>
  C6. In every run of seventool.c in mode \<open>RDRAND\<close> or \<open>RDSEED\<close>, an attempt whose
  instruction clears the carry flag forwards nothing: the next operation is
  \<^verbatim>\<open>nanosleep\<close> with a request of 0 s and 1000000 ns. When the sleep returns normally,
  or fails with \<^verbatim>\<open>EINTR\<close>, control is back at the loop test with reads, bytes-total
  and the sink as they were; from there, with no shutdown requested, the loop comes to
  the next attempt (after the statistics line, if a report is pending), and with shutdown
  requested \<^verbatim>\<open>main\<close> returns. Any other failure of the sleep ends the loop. The tool
  has no operation that opens or closes the source.
\<close>

theorem sampler_backoff:
  "spc (seventool opts env evs) = P_sample \<and> mode_v (seventool opts env evs) \<noteq> FAIL \<longrightarrow>
     spc (s_step (seventool opts env evs) (SampleRet w False)) = P_sleep
     \<and> strace (s_step (seventool opts env evs) (SampleRet w False))
         = strace (seventool opts env evs) @ [S_attempt (mode_v (seventool opts env evs)) w 0]
     \<and> (0 \<le> r \<or> e = EINTR \<longrightarrow>
          spc (foldl s_step (seventool opts env evs) [SampleRet w False, SleepRet r e]) = P_loop
          \<and> strace (foldl s_step (seventool opts env evs) [SampleRet w False, SleepRet r e])
              = strace (seventool opts env evs)
                @ [S_attempt (mode_v (seventool opts env evs)) w 0,
                   S_nanosleep \<lparr>tv_sec = 0, tv_nsec = 1000000\<rparr> r]
          \<and> reads (foldl s_step (seventool opts env evs) [SampleRet w False, SleepRet r e])
              = reads (seventool opts env evs)
          \<and> total_v (foldl s_step (seventool opts env evs) [SampleRet w False, SleepRet r e])
              = total_v (seventool opts env evs)
          \<and> s_sunk (strace (foldl s_step (seventool opts env evs)
                               [SampleRet w False, SleepRet r e]))
              = s_sunk (strace (seventool opts env evs))
          \<and> (if done_v (seventool opts env evs)
             then spc (foldl s_step (seventool opts env evs)
                         [SampleRet w False, SleepRet r e, Tau]) = P_returned
             else spc (foldl s_step (seventool opts env evs)
                         ([SampleRet w False, SleepRet r e, Tau, Tau]
                          @ (if report (seventool opts env evs) then [Tau, Tau] else [])))
                    = P_sample
                  \<and> s_sunk (strace (foldl s_step (seventool opts env evs)
                         ([SampleRet w False, SleepRet r e, Tau, Tau]
                          @ (if report (seventool opts env evs) then [Tau, Tau] else []))))
                    = s_sunk (strace (seventool opts env evs))))
     \<and> (r < 0 \<and> e \<noteq> EINTR \<longrightarrow>
          spc (foldl s_step (seventool opts env evs) [SampleRet w False, SleepRet r e])
            = P_returned)"
proof
  define S where "S = seventool opts env evs"
  assume "spc (seventool opts env evs) = P_sample \<and> mode_v (seventool opts env evs) \<noteq> FAIL"
  then have p: "spc S = P_sample" and m: "mode_v S = RDRAND \<or> mode_v S = RDSEED"
    unfolding S_def by (cases "mode_v (seventool opts env evs)"; simp)+
  have "s_ready S" unfolding S_def by (rule s_ready_seventool)
  with p have q: "request S = \<lparr>tv_sec = 0, tv_nsec = 1000000\<rparr>"
    by (simp add: s_ready_def)
  have 1: "spc (s_step S (SampleRet w False)) = P_sleep"
    using p m by (auto simp: s_step_def s_loop_defs Let_def)
  have 2: "strace (s_step S (SampleRet w False)) = strace S @ [S_attempt (mode_v S) w 0]"
    using p m by (auto simp: s_step_def s_loop_defs Let_def)
  have 3: "0 \<le> r \<or> e = EINTR \<longrightarrow>
          spc (foldl s_step S [SampleRet w False, SleepRet r e]) = P_loop
          \<and> strace (foldl s_step S [SampleRet w False, SleepRet r e])
              = strace S @ [S_attempt (mode_v S) w 0,
                            S_nanosleep \<lparr>tv_sec = 0, tv_nsec = 1000000\<rparr> r]
          \<and> reads (foldl s_step S [SampleRet w False, SleepRet r e]) = reads S
          \<and> total_v (foldl s_step S [SampleRet w False, SleepRet r e]) = total_v S
          \<and> s_sunk (strace (foldl s_step S [SampleRet w False, SleepRet r e]))
              = s_sunk (strace S)
          \<and> (if done_v S
             then spc (foldl s_step S [SampleRet w False, SleepRet r e, Tau]) = P_returned
             else spc (foldl s_step S
                         ([SampleRet w False, SleepRet r e, Tau, Tau]
                          @ (if report S then [Tau, Tau] else []))) = P_sample
                  \<and> s_sunk (strace (foldl s_step S
                         ([SampleRet w False, SleepRet r e, Tau, Tau]
                          @ (if report S then [Tau, Tau] else []))))
                    = s_sunk (strace S))"
    using p m q
    by (auto simp: s_step_def s_loop_defs Let_def s_sunk_simps split: option.splits)
  have 4: "r < 0 \<and> e \<noteq> EINTR \<longrightarrow>
          spc (foldl s_step S [SampleRet w False, SleepRet r e]) = P_returned"
    using p m by (auto simp: s_step_def s_loop_defs Let_def split: option.splits)
  from 1 2 3 4 show "spc (s_step (seventool opts env evs) (SampleRet w False)) = P_sleep
     \<and> strace (s_step (seventool opts env evs) (SampleRet w False))
         = strace (seventool opts env evs) @ [S_attempt (mode_v (seventool opts env evs)) w 0]
     \<and> (0 \<le> r \<or> e = EINTR \<longrightarrow>
          spc (foldl s_step (seventool opts env evs) [SampleRet w False, SleepRet r e]) = P_loop
          \<and> strace (foldl s_step (seventool opts env evs) [SampleRet w False, SleepRet r e])
              = strace (seventool opts env evs)
                @ [S_attempt (mode_v (seventool opts env evs)) w 0,
                   S_nanosleep \<lparr>tv_sec = 0, tv_nsec = 1000000\<rparr> r]
          \<and> reads (foldl s_step (seventool opts env evs) [SampleRet w False, SleepRet r e])
              = reads (seventool opts env evs)
          \<and> total_v (foldl s_step (seventool opts env evs) [SampleRet w False, SleepRet r e])
              = total_v (seventool opts env evs)
          \<and> s_sunk (strace (foldl s_step (seventool opts env evs)
                               [SampleRet w False, SleepRet r e]))
              = s_sunk (strace (seventool opts env evs))
          \<and> (if done_v (seventool opts env evs)
             then spc (foldl s_step (seventool opts env evs)
                         [SampleRet w False, SleepRet r e, Tau]) = P_returned
             else spc (foldl s_step (seventool opts env evs)
                         ([SampleRet w False, SleepRet r e, Tau, Tau]
                          @ (if report (seventool opts env evs) then [Tau, Tau] else [])))
                    = P_sample
                  \<and> s_sunk (strace (foldl s_step (seventool opts env evs)
                         ([SampleRet w False, SleepRet r e, Tau, Tau]
                          @ (if report (seventool opts env evs) then [Tau, Tau] else []))))
                    = s_sunk (strace (seventool opts env evs))))
     \<and> (r < 0 \<and> e \<noteq> EINTR \<longrightarrow>
          spc (foldl s_step (seventool opts env evs) [SampleRet w False, SleepRet r e])
            = P_returned)"
    unfolding S_def by blast
qed

theorem sampler_backoff_witness:
  "spc (seventool [SOpt_R] senv0 [Tau, Tau]) = P_sample
   \<and> mode_v (seventool [SOpt_R] senv0 [Tau, Tau]) \<noteq> FAIL
   \<and> spc (s_step (seventool [SOpt_R] senv0 [Tau, Tau]) (SampleRet 5 False)) = P_sleep
   \<and> spc (foldl s_step (seventool [SOpt_R] senv0 [Tau, Tau])
            [SampleRet 5 False, SleepRet (- 1) EINTR]) = P_loop
   \<and> strace (foldl s_step (seventool [SOpt_R] senv0 [Tau, Tau])
            [SampleRet 5 False, SleepRet (- 1) EINTR])
       = strace (seventool [SOpt_R] senv0 [Tau, Tau])
         @ [S_attempt RDRAND 5 0, S_nanosleep \<lparr>tv_sec = 0, tv_nsec = 1000000\<rparr> (- 1)]
   \<and> spc (foldl s_step (seventool [SOpt_R] senv0 [Tau, Tau])
            [SampleRet 5 False, SleepRet (- 1) EINTR, Tau, Tau]) = P_sample"
proof -
  have a: "spc (seventool [SOpt_R] senv0 [Tau, Tau]) = P_sample" by code_simp
  have b: "mode_v (seventool [SOpt_R] senv0 [Tau, Tau]) = RDRAND" by code_simp
  have c: "\<not> done_v (seventool [SOpt_R] senv0 [Tau, Tau])" by code_simp
  have d: "\<not> report (seventool [SOpt_R] senv0 [Tau, Tau])" by code_simp
  show ?thesis
    using sampler_backoff [where opts = "[SOpt_R]" and env = senv0 and evs = "[Tau, Tau]"
        and w = 5 and r = "- 1" and e = EINTR]
      a b c d
    by simp
qed

lemma s_case_strace: "strace (s_case opt s) = strace s"
  by (cases opt) (simp_all add: s_case_def)

lemma s_getopt_strace: "strace (s_getopt opts s) = strace s"
  by (induction opts arbitrary: s) (simp_all add: Let_def s_case_strace)

lemma s_getopt_mode:
  "SOpt_R \<notin> set opts \<Longrightarrow> SOpt_S \<notin> set opts \<Longrightarrow> mode_v (s_getopt opts s) = mode_v s"
proof (induction opts arbitrary: s)
  case Nil
  then show ?case by simp
next
  case (Cons opt opts)
  from Cons.prems have "mode_v (s_case opt s) = mode_v s"
    by (cases opt) (simp_all add: s_case_def)
  with Cons show ?case by (simp add: Let_def)
qed

lemma s_fail_setup:
  "list_all s_fail_action (strace s) \<Longrightarrow> list_all s_fail_action (strace (s_setup env s))"
  by (simp add: s_setup_defs Let_def split: option.splits)

text \<open>In mode \<open>FAIL\<close> a step keeps the trace free of instructions and sleeps.\<close>

lemma s_fail_step:
  "s_ready s \<Longrightarrow> mode_v s = FAIL \<Longrightarrow> list_all s_fail_action (strace s)
     \<Longrightarrow> list_all s_fail_action (strace (s_step s ev))"
  unfolding s_ready_def s_step_def
  by (cases ev; cases "spc s")
     (auto simp: s_loop_defs Let_def split: option.splits event.splits)

lemma s_fail_run:
  "s_ready s \<Longrightarrow> mode_v s = FAIL \<Longrightarrow> list_all s_fail_action (strace s)
     \<Longrightarrow> list_all s_fail_action (strace (foldl s_step s evs))"
  by (induction evs arbitrary: s) (simp_all add: s_fail_step s_ready_step s_mode_step)

lemma word_bytes_DEADCODE: "word_bytes DEADCODE = [0xDE, 0xC0, 0xAD, 0xDE]"
  by (simp add: word_bytes_def DEADCODE_def drop_bit_eq_div)

text \<open>
  C9. When neither \<^verbatim>\<open>-R\<close> nor \<^verbatim>\<open>-S\<close> is on the command line, the mode of every run of
  seventool.c is \<open>FAIL\<close>. No attempt of such a run executes an instruction and none
  sleeps: every attempt reaches the test with \<^verbatim>\<open>carry\<close> 1 and \<^verbatim>\<open>word\<close> 0xDEADC0DE, and
  every write hands that word to the sink. So each iteration that comes to the attempt
  counts a try and a read, adds 4 to bytes-total and writes the constant, whose bytes in
  memory are DE C0 AD DE; only the shutdown flag at the loop test, or a short write, ends
  the loop.
\<close>

theorem fail_mode_writes_constant:
  "SOpt_R \<notin> set opts \<and> SOpt_S \<notin> set opts \<longrightarrow>
     mode_v (seventool opts env evs) = FAIL
     \<and> list_all s_fail_action (strace (seventool opts env evs))
     \<and> spc (seventool opts env evs) \<noteq> P_sleep
     \<and> (spc (seventool opts env evs) \<noteq> P_returned \<longrightarrow>
          word_v (seventool opts env evs) = 0xDEADC0DE \<and> carry (seventool opts env evs) = 1)
     \<and> (spc (seventool opts env evs) = P_sample \<longrightarrow>
          spc (s_step (seventool opts env evs) Tau) = P_write
          \<and> strace (s_step (seventool opts env evs) Tau)
              = strace (seventool opts env evs) @ [S_attempt FAIL 0xDEADC0DE 1]
          \<and> tries (s_step (seventool opts env evs) Tau) = tries (seventool opts env evs) + 1
          \<and> reads (s_step (seventool opts env evs) Tau) = reads (seventool opts env evs) + 1
          \<and> total_v (s_step (seventool opts env evs) Tau)
              = total_v (seventool opts env evs) + 4
          \<and> s_sunk (strace (foldl s_step (seventool opts env evs) [Tau, WriteRet n]))
              = s_sunk (strace (seventool opts env evs)) @ [0xDEADC0DE]
          \<and> spc (foldl s_step (seventool opts env evs) [Tau, WriteRet n])
              = (if n < 1 then P_returned else P_loop))
     \<and> (spc (seventool opts env evs) = P_loop \<longrightarrow>
          spc (s_step (seventool opts env evs) Tau)
            = (if done_v (seventool opts env evs) then P_returned else P_report))
     \<and> word_bytes 0xDEADC0DE = [0xDE, 0xC0, 0xAD, 0xDE]"
proof
  define S where "S = seventool opts env evs"
  assume a: "SOpt_R \<notin> set opts \<and> SOpt_S \<notin> set opts"
  then have "mode_v (s_parsed opts env) = FAIL"
    by (simp add: s_parsed_def s_getopt_mode s_init_def)
  then have m: "mode_v S = FAIL"
    by (simp add: S_def s_mode_seventool)
  have rdy: "s_ready S" unfolding S_def by (rule s_ready_seventool)
  have "list_all s_fail_action (strace (s_setup env (s_getopt opts (s_init env))))"
    by (rule s_fail_setup) (simp add: s_getopt_strace s_init_def)
  moreover have "mode_v (s_setup env (s_getopt opts (s_init env))) = FAIL"
    using a by (simp add: s_mode_setup s_getopt_mode s_init_def)
  ultimately have f: "list_all s_fail_action (strace S)"
    unfolding S_def seventool_def by (intro s_fail_run s_ready_setup)
  have 1: "spc S \<noteq> P_sleep"
    using rdy m by (auto simp: s_ready_def)
  have 2: "spc S \<noteq> P_returned \<longrightarrow> word_v S = 0xDEADC0DE \<and> carry S = 1"
    using rdy m by (simp add: s_ready_def DEADCODE_def)
  have 3: "spc S = P_sample \<longrightarrow>
          spc (s_step S Tau) = P_write
          \<and> strace (s_step S Tau) = strace S @ [S_attempt FAIL 0xDEADC0DE 1]
          \<and> tries (s_step S Tau) = tries S + 1
          \<and> reads (s_step S Tau) = reads S + 1
          \<and> total_v (s_step S Tau) = total_v S + 4
          \<and> s_sunk (strace (foldl s_step S [Tau, WriteRet n])) = s_sunk (strace S) @ [0xDEADC0DE]
          \<and> spc (foldl s_step S [Tau, WriteRet n]) = (if n < 1 then P_returned else P_loop)"
    using rdy m
    by (auto simp: s_ready_def DEADCODE_def s_step_def s_loop_defs Let_def s_sunk_simps
             split: option.splits)
  have 4: "spc S = P_loop \<longrightarrow> spc (s_step S Tau) = (if done_v S then P_returned else P_report)"
    by (auto simp: s_step_def s_loop_defs Let_def split: option.splits)
  have 5: "word_bytes 0xDEADC0DE = [0xDE, 0xC0, 0xAD, 0xDE]"
    using word_bytes_DEADCODE by (simp add: DEADCODE_def)
  from m f 1 2 3 4 5 show "mode_v (seventool opts env evs) = FAIL
     \<and> list_all s_fail_action (strace (seventool opts env evs))
     \<and> spc (seventool opts env evs) \<noteq> P_sleep
     \<and> (spc (seventool opts env evs) \<noteq> P_returned \<longrightarrow>
          word_v (seventool opts env evs) = 0xDEADC0DE \<and> carry (seventool opts env evs) = 1)
     \<and> (spc (seventool opts env evs) = P_sample \<longrightarrow>
          spc (s_step (seventool opts env evs) Tau) = P_write
          \<and> strace (s_step (seventool opts env evs) Tau)
              = strace (seventool opts env evs) @ [S_attempt FAIL 0xDEADC0DE 1]
          \<and> tries (s_step (seventool opts env evs) Tau) = tries (seventool opts env evs) + 1
          \<and> reads (s_step (seventool opts env evs) Tau) = reads (seventool opts env evs) + 1
          \<and> total_v (s_step (seventool opts env evs) Tau)
              = total_v (seventool opts env evs) + 4
          \<and> s_sunk (strace (foldl s_step (seventool opts env evs) [Tau, WriteRet n]))
              = s_sunk (strace (seventool opts env evs)) @ [0xDEADC0DE]
          \<and> spc (foldl s_step (seventool opts env evs) [Tau, WriteRet n])
              = (if n < 1 then P_returned else P_loop))
     \<and> (spc (seventool opts env evs) = P_loop \<longrightarrow>
          spc (s_step (seventool opts env evs) Tau)
            = (if done_v (seventool opts env evs) then P_returned else P_report))
     \<and> word_bytes 0xDEADC0DE = [0xDE, 0xC0, 0xAD, 0xDE]"
    unfolding S_def by blast
qed

theorem fail_mode_writes_constant_witness:
  "SOpt_R \<notin> set [SOpt_d] \<and> SOpt_S \<notin> set [SOpt_d]
   \<and> mode_v (seventool [SOpt_d] senv0 [Tau, Tau, Tau, WriteRet 1, Tau, Tau]) = FAIL
   \<and> spc (seventool [SOpt_d] senv0 [Tau, Tau, Tau, WriteRet 1, Tau, Tau]) = P_sample
   \<and> s_sunk (strace (seventool [SOpt_d] senv0 [Tau, Tau, Tau, WriteRet 1, Tau, Tau]))
       = [0xDEADC0DE]
   \<and> s_sunk (strace (foldl s_step
         (seventool [SOpt_d] senv0 [Tau, Tau, Tau, WriteRet 1, Tau, Tau]) [Tau, WriteRet 1]))
       = [0xDEADC0DE, 0xDEADC0DE]
   \<and> reads (s_step (seventool [SOpt_d] senv0 [Tau, Tau, Tau, WriteRet 1, Tau, Tau]) Tau) = 2
   \<and> total_v (s_step (seventool [SOpt_d] senv0 [Tau, Tau, Tau, WriteRet 1, Tau, Tau]) Tau) = 8"
proof -
  have a: "SOpt_R \<notin> set [SOpt_d] \<and> SOpt_S \<notin> set [SOpt_d]" by simp
  have b: "spc (seventool [SOpt_d] senv0 [Tau, Tau, Tau, WriteRet 1, Tau, Tau]) = P_sample"
    by code_simp
  have c: "s_sunk (strace (seventool [SOpt_d] senv0 [Tau, Tau, Tau, WriteRet 1, Tau, Tau]))
             = [0xDEADC0DE]"
    by code_simp
  have d: "reads (seventool [SOpt_d] senv0 [Tau, Tau, Tau, WriteRet 1, Tau, Tau]) = 1"
    by code_simp
  have e: "total_v (seventool [SOpt_d] senv0 [Tau, Tau, Tau, WriteRet 1, Tau, Tau]) = 4"
    by code_simp
  show ?thesis
    using fail_mode_writes_constant [where opts = "[SOpt_d]" and env = senv0
        and evs = "[Tau, Tau, Tau, WriteRet 1, Tau, Tau]" and n = 1]
      a b c d e
    by simp
qed

subsection \<open>The report flag\<close>

lemma q_sighup_twice:
  "q_step h (q_step h s (Sig SIGHUP)) (Sig SIGHUP) = q_step h s (Sig SIGHUP)"
  by (simp add: q_step_def handler_def)

lemma q_sighup_collapse:
  "foldl (q_step h) s (replicate (Suc n) (Sig SIGHUP)) = q_step h s (Sig SIGHUP)"
proof -
  have "foldl (q_step h) (q_step h s (Sig SIGHUP)) (replicate n (Sig SIGHUP)) = q_step h s (Sig SIGHUP)"
    by (induction n) (simp_all add: q_sighup_twice)
  then show ?thesis by simp
qed

lemma s_sighup_twice:
  "s_step (s_step s (Sig SIGHUP)) (Sig SIGHUP) = s_step s (Sig SIGHUP)"
  by (simp add: s_step_def handler_def)

lemma s_sighup_collapse:
  "foldl s_step s (replicate (Suc n) (Sig SIGHUP)) = s_step s (Sig SIGHUP)"
proof -
  have "foldl s_step (s_step s (Sig SIGHUP)) (replicate n (Sig SIGHUP)) = s_step s (Sig SIGHUP)"
    by (induction n) (simp_all add: s_sighup_twice)
  then show ?thesis by simp
qed

text \<open>
  C8. At the \<^verbatim>\<open>if (report)\<close> test of either loop with the flag set, the test, the print
  and the reset emit exactly one statistics line, with the counters as they stand, and
  clear the flag; the shutdown flag and every counter are as before, and the loop goes on
  to the read. With the flag clear the test emits nothing. Any number of \<^verbatim>\<open>SIGHUP\<close>
  deliveries leaves the same state as one, and a delivery changes neither the shutdown
  flag, nor a counter, nor the trace; \<^verbatim>\<open>SIGINT\<close> and \<^verbatim>\<open>SIGPIPE\<close> do not change the
  report flag.
\<close>

theorem report_flag_consumed_once:
  "(pc s = Q_report \<and> report s \<longrightarrow>
      pc (foldl (q_step h) s [Tau, Tau, Tau]) = Q_read1
      \<and> trace (foldl (q_step h) s [Tau, Tau, Tau])
          = trace s @ [Q_stats (opens s) (size_v s) (reads s) (total_v s)]
      \<and> \<not> report (foldl (q_step h) s [Tau, Tau, Tau])
      \<and> done_v (foldl (q_step h) s [Tau, Tau, Tau]) = done_v s
      \<and> q_counters (foldl (q_step h) s [Tau, Tau, Tau]) = q_counters s)
   \<and> (pc s = Q_report \<and> \<not> report s \<longrightarrow>
      pc (q_step h s Tau) = Q_read1
      \<and> trace (q_step h s Tau) = trace s
      \<and> \<not> report (q_step h s Tau)
      \<and> done_v (q_step h s Tau) = done_v s
      \<and> q_counters (q_step h s Tau) = q_counters s)
   \<and> foldl (q_step h) s (replicate (Suc n) (Sig SIGHUP)) = q_step h s (Sig SIGHUP)
   \<and> done_v (q_step h s (Sig SIGHUP)) = done_v s
   \<and> q_counters (q_step h s (Sig SIGHUP)) = q_counters s
   \<and> trace (q_step h s (Sig SIGHUP)) = trace s
   \<and> pc (q_step h s (Sig SIGHUP)) = pc s
   \<and> (pc s \<noteq> Q_returned \<longrightarrow> report (q_step h s (Sig SIGHUP)))
   \<and> report (q_step h s (Sig SIGINT)) = report s
   \<and> report (q_step h s (Sig SIGPIPE)) = report s
   \<and> (spc t = P_report \<and> report t \<longrightarrow>
      spc (foldl s_step t [Tau, Tau, Tau]) = P_sample
      \<and> strace (foldl s_step t [Tau, Tau, Tau])
          = strace t @ [S_stats (tries t) 4 (reads t) (total_v t)]
      \<and> \<not> report (foldl s_step t [Tau, Tau, Tau])
      \<and> done_v (foldl s_step t [Tau, Tau, Tau]) = done_v t
      \<and> s_counters (foldl s_step t [Tau, Tau, Tau]) = s_counters t)
   \<and> (spc t = P_report \<and> \<not> report t \<longrightarrow>
      spc (s_step t Tau) = P_sample
      \<and> strace (s_step t Tau) = strace t
      \<and> \<not> report (s_step t Tau)
      \<and> done_v (s_step t Tau) = done_v t
      \<and> s_counters (s_step t Tau) = s_counters t)
   \<and> foldl s_step t (replicate (Suc n) (Sig SIGHUP)) = s_step t (Sig SIGHUP)
   \<and> done_v (s_step t (Sig SIGHUP)) = done_v t
   \<and> s_counters (s_step t (Sig SIGHUP)) = s_counters t
   \<and> strace (s_step t (Sig SIGHUP)) = strace t
   \<and> spc (s_step t (Sig SIGHUP)) = spc t
   \<and> (spc t \<noteq> P_returned \<longrightarrow> report (s_step t (Sig SIGHUP)))
   \<and> report (s_step t (Sig SIGINT)) = report t
   \<and> report (s_step t (Sig SIGPIPE)) = report t"
proof -
  have q1: "pc s = Q_report \<and> report s \<longrightarrow>
      pc (foldl (q_step h) s [Tau, Tau, Tau]) = Q_read1
      \<and> trace (foldl (q_step h) s [Tau, Tau, Tau])
          = trace s @ [Q_stats (opens s) (size_v s) (reads s) (total_v s)]
      \<and> \<not> report (foldl (q_step h) s [Tau, Tau, Tau])
      \<and> done_v (foldl (q_step h) s [Tau, Tau, Tau]) = done_v s
      \<and> q_counters (foldl (q_step h) s [Tau, Tau, Tau]) = q_counters s"
    by (simp add: q_step_def q_report_def q_print_def q_reset_def q_log_def q_counters_def)
  have q2: "pc s = Q_report \<and> \<not> report s \<longrightarrow>
      pc (q_step h s Tau) = Q_read1
      \<and> trace (q_step h s Tau) = trace s
      \<and> \<not> report (q_step h s Tau)
      \<and> done_v (q_step h s Tau) = done_v s
      \<and> q_counters (q_step h s Tau) = q_counters s"
    by (simp add: q_step_def q_report_def q_counters_def)
  have q3: "foldl (q_step h) s (replicate (Suc n) (Sig SIGHUP)) = q_step h s (Sig SIGHUP)"
    by (rule q_sighup_collapse)
  have q4: "done_v (q_step h s (Sig SIGHUP)) = done_v s
      \<and> q_counters (q_step h s (Sig SIGHUP)) = q_counters s
      \<and> trace (q_step h s (Sig SIGHUP)) = trace s
      \<and> pc (q_step h s (Sig SIGHUP)) = pc s
      \<and> (pc s \<noteq> Q_returned \<longrightarrow> report (q_step h s (Sig SIGHUP)))
      \<and> report (q_step h s (Sig SIGINT)) = report s
      \<and> report (q_step h s (Sig SIGPIPE)) = report s"
    by (simp add: q_step_def handler_def q_counters_def)
  have s1: "spc t = P_report \<and> report t \<longrightarrow>
      spc (foldl s_step t [Tau, Tau, Tau]) = P_sample
      \<and> strace (foldl s_step t [Tau, Tau, Tau])
          = strace t @ [S_stats (tries t) 4 (reads t) (total_v t)]
      \<and> \<not> report (foldl s_step t [Tau, Tau, Tau])
      \<and> done_v (foldl s_step t [Tau, Tau, Tau]) = done_v t
      \<and> s_counters (foldl s_step t [Tau, Tau, Tau]) = s_counters t"
    by (simp add: s_step_def s_report_def s_print_def s_reset_def s_log_def s_counters_def)
  have s2: "spc t = P_report \<and> \<not> report t \<longrightarrow>
      spc (s_step t Tau) = P_sample
      \<and> strace (s_step t Tau) = strace t
      \<and> \<not> report (s_step t Tau)
      \<and> done_v (s_step t Tau) = done_v t
      \<and> s_counters (s_step t Tau) = s_counters t"
    by (simp add: s_step_def s_report_def s_counters_def)
  have s3: "foldl s_step t (replicate (Suc n) (Sig SIGHUP)) = s_step t (Sig SIGHUP)"
    by (rule s_sighup_collapse)
  have s4: "done_v (s_step t (Sig SIGHUP)) = done_v t
      \<and> s_counters (s_step t (Sig SIGHUP)) = s_counters t
      \<and> strace (s_step t (Sig SIGHUP)) = strace t
      \<and> spc (s_step t (Sig SIGHUP)) = spc t
      \<and> (spc t \<noteq> P_returned \<longrightarrow> report (s_step t (Sig SIGHUP)))
      \<and> report (s_step t (Sig SIGINT)) = report t
      \<and> report (s_step t (Sig SIGPIPE)) = report t"
    by (simp add: s_step_def handler_def s_counters_def)
  from q1 q2 q3 q4 s1 s2 s3 s4 show ?thesis by blast
qed

theorem report_flag_consumed_once_witness:
  "pc (quantistool h0 [Opt_r ''1'' 1 True] (qenv0 usb0)
         [Tau, OpenRet 0 (Some 1), Sig SIGHUP, Sig SIGHUP, Tau]) = Q_report
   \<and> report (quantistool h0 [Opt_r ''1'' 1 True] (qenv0 usb0)
         [Tau, OpenRet 0 (Some 1), Sig SIGHUP, Sig SIGHUP, Tau])
   \<and> trace (foldl (q_step h0) (quantistool h0 [Opt_r ''1'' 1 True] (qenv0 usb0)
         [Tau, OpenRet 0 (Some 1), Sig SIGHUP, Sig SIGHUP, Tau]) [Tau, Tau, Tau])
       = trace (quantistool h0 [Opt_r ''1'' 1 True] (qenv0 usb0)
         [Tau, OpenRet 0 (Some 1), Sig SIGHUP, Sig SIGHUP, Tau]) @ [Q_stats 1 1 0 0]
   \<and> \<not> report (foldl (q_step h0) (quantistool h0 [Opt_r ''1'' 1 True] (qenv0 usb0)
         [Tau, OpenRet 0 (Some 1), Sig SIGHUP, Sig SIGHUP, Tau]) [Tau, Tau, Tau])
   \<and> \<not> done_v (foldl (q_step h0) (quantistool h0 [Opt_r ''1'' 1 True] (qenv0 usb0)
         [Tau, OpenRet 0 (Some 1), Sig SIGHUP, Sig SIGHUP, Tau]) [Tau, Tau, Tau])
   \<and> spc (seventool [] senv0 [Sig SIGHUP, Tau]) = P_report
   \<and> report (seventool [] senv0 [Sig SIGHUP, Tau])
   \<and> strace (foldl s_step (seventool [] senv0 [Sig SIGHUP, Tau]) [Tau, Tau, Tau])
       = strace (seventool [] senv0 [Sig SIGHUP, Tau]) @ [S_stats 0 4 0 0]
   \<and> \<not> report (foldl s_step (seventool [] senv0 [Sig SIGHUP, Tau]) [Tau, Tau, Tau])"
proof -
  have a: "pc (quantistool h0 [Opt_r ''1'' 1 True] (qenv0 usb0)
         [Tau, OpenRet 0 (Some 1), Sig SIGHUP, Sig SIGHUP, Tau]) = Q_report"
    by code_simp
  have b: "report (quantistool h0 [Opt_r ''1'' 1 True] (qenv0 usb0)
         [Tau, OpenRet 0 (Some 1), Sig SIGHUP, Sig SIGHUP, Tau])"
    by code_simp
  have c: "\<not> done_v (quantistool h0 [Opt_r ''1'' 1 True] (qenv0 usb0)
         [Tau, OpenRet 0 (Some 1), Sig SIGHUP, Sig SIGHUP, Tau])"
    by code_simp
  have d: "opens (quantistool h0 [Opt_r ''1'' 1 True] (qenv0 usb0)
         [Tau, OpenRet 0 (Some 1), Sig SIGHUP, Sig SIGHUP, Tau]) = 1
     \<and> size_v (quantistool h0 [Opt_r ''1'' 1 True] (qenv0 usb0)
         [Tau, OpenRet 0 (Some 1), Sig SIGHUP, Sig SIGHUP, Tau]) = 1
     \<and> reads (quantistool h0 [Opt_r ''1'' 1 True] (qenv0 usb0)
         [Tau, OpenRet 0 (Some 1), Sig SIGHUP, Sig SIGHUP, Tau]) = 0
     \<and> total_v (quantistool h0 [Opt_r ''1'' 1 True] (qenv0 usb0)
         [Tau, OpenRet 0 (Some 1), Sig SIGHUP, Sig SIGHUP, Tau]) = 0"
    by code_simp
  have e: "spc (seventool [] senv0 [Sig SIGHUP, Tau]) = P_report" by code_simp
  have f: "report (seventool [] senv0 [Sig SIGHUP, Tau])" by code_simp
  have g: "tries (seventool [] senv0 [Sig SIGHUP, Tau]) = 0
     \<and> reads (seventool [] senv0 [Sig SIGHUP, Tau]) = 0
     \<and> total_v (seventool [] senv0 [Sig SIGHUP, Tau]) = 0"
    by code_simp
  show ?thesis
    using report_flag_consumed_once [where h = h0
        and s = "quantistool h0 [Opt_r ''1'' 1 True] (qenv0 usb0)
                   [Tau, OpenRet 0 (Some 1), Sig SIGHUP, Sig SIGHUP, Tau]"
        and t = "seventool [] senv0 [Sig SIGHUP, Tau]" and n = 0]
      a b c d e f g
    by simp
qed

subsection \<open>The output stream against the schedule\<close>

lemma s_taken_append: "s_taken (tr @ tr') = s_taken tr @ s_taken tr'"
  by (simp add: s_taken_def)

lemma q_short_simps:
  "q_short [] = False"
  "q_short (a # tr) = ((case a of Q_fwrite u w \<Rightarrow> w < 1 | _ \<Rightarrow> False) \<or> q_short tr)"
  "q_short (tr @ tr') = (q_short tr \<or> q_short tr')"
  by (simp_all add: q_short_def)

lemma s_short_simps:
  "s_short [] = False"
  "s_short (a # tr) = ((case a of S_fwrite w n \<Rightarrow> n < 1 | _ \<Rightarrow> False) \<or> s_short tr)"
  "s_short (tr @ tr') = (s_short tr \<or> s_short tr')"
  by (simp_all add: s_short_def)

lemma q_taken_all: "\<not> q_short tr \<Longrightarrow> q_taken tr = q_sunk tr"
proof (induction tr)
  case Nil
  then show ?case by (simp add: q_taken_simps q_sunk_simps)
next
  case (Cons a tr)
  then show ?case
    by (cases a) (auto simp: q_taken_simps(2) q_sunk_simps(2) q_short_simps(2))
qed

lemma s_taken_all: "\<not> s_short tr \<Longrightarrow> s_taken tr = s_sunk tr"
proof (induction tr)
  case Nil
  then show ?case by (simp add: s_taken_simps s_sunk_simps)
next
  case (Cons a tr)
  then show ?case
    by (cases a) (auto simp: s_taken_simps(2) s_sunk_simps(2) s_short_simps(2))
qed

lemma store_full: "length d = length b \<Longrightarrow> store d b = d"
  by (simp add: store_def)

lemma length_store: "length (store d b) = length b"
  by (simp add: store_def)

lemma length_block: "length (block n bs) = n"
  by (simp add: block_def)

lemma q_size_step: "size_v (q_step h s ev) = size_v s"
  unfolding q_step_def
  by (cases ev; cases "pc s") (auto simp: q_loop_defs Let_def split: option.splits)

lemma q_size_run: "size_v (foldl (q_step h) s evs) = size_v s"
  by (induction evs arbitrary: s) (simp_all add: q_size_step)

lemma q_buf_step: "q_buf s \<Longrightarrow> q_buf (q_step h s ev)"
  unfolding q_buf_def q_step_def
  by (cases ev; cases "pc s")
     (auto simp: q_loop_defs Let_def bytes_of_def length_store split: option.splits)

lemma q_buf_cleanup: "q_buf (q_cleanup s)"
  by (simp add: q_buf_def q_pc_cleanup)

lemma q_buf_switch:
  "buffer s \<noteq> None \<Longrightarrow> length (bytes_of (buffer s)) = unat (size_v s) \<Longrightarrow> q_buf (q_switch env s)"
  by (simp add: q_switch_def q_buf_cleanup q_log_def split: option.splits)
     (simp add: q_buf_def)

lemma q_buf_alloc: "q_buf (q_alloc h env s)"
  by (cases "malloc_ret env")
     (simp_all add: q_alloc_def Let_def q_buf_cleanup q_buf_switch q_sigaction_def q_log_def
        bytes_of_def length_block)

lemma q_buf_setup: "q_buf (q_setup h env s)"
  by (simp add: q_setup_def Let_def q_buf_cleanup q_buf_alloc)

lemma q_src_step:
  assumes "q_buf s"
    and "case ev of ReadRet r d \<Rightarrow> r < QUANTIS_SUCCESS h \<or> length d = unat (size_v s) | _ \<Rightarrow> True"
  shows "q_sunk (trace (q_step h s ev)) @ q_inflight (q_step h s ev)
           = q_sunk (trace s) @ q_inflight s @ q_src1 h s ev"
  using assms unfolding q_buf_def q_step_def q_src1_def
  by (cases ev; cases "pc s")
     (auto simp: q_loop_defs Let_def q_sunk_simps q_inflight_def q_unit_def bytes_of_def
           store_full split: option.splits)

lemma q_src_run:
  "q_buf s \<Longrightarrow> q_full h (unat (size_v s)) evs
     \<Longrightarrow> q_sunk (trace (foldl (q_step h) s evs)) @ q_inflight (foldl (q_step h) s evs)
         = q_sunk (trace s) @ q_inflight s @ q_src h s evs"
proof (induction evs arbitrary: s)
  case Nil
  then show ?case by simp
next
  case (Cons ev evs)
  from Cons.prems(2)
  have e: "case ev of ReadRet r d \<Rightarrow> r < QUANTIS_SUCCESS h \<or> length d = unat (size_v s)
             | _ \<Rightarrow> True"
    and f: "q_full h (unat (size_v (q_step h s ev))) evs"
    by (simp_all add: q_full_def q_size_step)
  have "q_sunk (trace (foldl (q_step h) (q_step h s ev) evs))
          @ q_inflight (foldl (q_step h) (q_step h s ev) evs)
        = q_sunk (trace (q_step h s ev)) @ q_inflight (q_step h s ev)
          @ q_src h (q_step h s ev) evs"
    by (rule Cons.IH [OF q_buf_step [OF Cons.prems(1)] f])
  also have "\<dots> = (q_sunk (trace s) @ q_inflight s @ q_src1 h s ev) @ q_src h (q_step h s ev) evs"
    using q_src_step [OF Cons.prems(1) e] by simp
  finally show ?case by simp
qed

lemma s_src_step:
  assumes "s_ready s"
  shows "s_sunk (strace (s_step s ev)) @ s_inflight (s_step s ev)
           = s_sunk (strace s) @ s_inflight s @ s_src1 s ev"
  using assms unfolding s_ready_def s_step_def s_src1_def
  by (cases ev; cases "spc s"; cases "mode_v s")
     (auto simp: s_loop_defs Let_def s_sunk_simps s_inflight_def DEADCODE_def
           split: option.splits)

lemma s_src_run:
  "s_ready s
     \<Longrightarrow> s_sunk (strace (foldl s_step s evs)) @ s_inflight (foldl s_step s evs)
         = s_sunk (strace s) @ s_inflight s @ s_src s evs"
proof (induction evs arbitrary: s)
  case Nil
  then show ?case by simp
next
  case (Cons ev evs)
  have "s_sunk (strace (foldl s_step (s_step s ev) evs))
          @ s_inflight (foldl s_step (s_step s ev) evs)
        = s_sunk (strace (s_step s ev)) @ s_inflight (s_step s ev) @ s_src (s_step s ev) evs"
    by (rule Cons.IH [OF s_ready_step [OF Cons.prems]])
  also have "\<dots> = (s_sunk (strace s) @ s_inflight s @ s_src1 s ev) @ s_src (s_step s ev) evs"
    using s_src_step [OF Cons.prems] by simp
  finally show ?case by simp
qed

lemma s_lost_step: "s_lost s \<Longrightarrow> s_lost (s_step s ev)"
  unfolding s_lost_def s_step_def
  by (cases ev; cases "spc s")
     (auto simp: s_loop_defs Let_def s_sunk_simps s_taken_simps s_taken_append s_short_simps
           split: option.splits event.splits if_splits)

lemma s_lost_run: "s_lost s \<Longrightarrow> s_lost (foldl s_step s evs)"
  by (induction evs arbitrary: s) (simp_all add: s_lost_step)

lemma s_short_sunk: "s_short tr \<Longrightarrow> s_sunk tr \<noteq> []"
proof (induction tr)
  case Nil
  then show ?case by (simp add: s_short_simps)
next
  case (Cons a tr)
  then show ?case
    by (cases a) (auto simp: s_short_simps(2) s_sunk_simps(2))
qed

lemma s_lost_start: "s_lost (s_start opts env)"
proof -
  have e: "s_sunk (strace (s_start opts env)) = []"
    using s_pre_start [of env opts] by (simp add: s_pre_def s_start_def)
  then have n: "\<not> s_short (strace (s_start opts env))"
    using s_short_sunk by blast
  then show ?thesis
    using e by (simp add: s_lost_def s_taken_all)
qed

lemma quantistool_start: "quantistool h opts env evs = foldl (q_step h) (q_start h opts env) evs"
  by (simp add: quantistool_def q_start_def)

lemma seventool_start: "seventool opts env evs = foldl s_step (s_start opts env) evs"
  by (simp add: seventool_def s_start_def)

text \<open>
  C1, as the code has it. In every run of either tool, the units handed to the sink,
  followed by the unit in flight if a write is pending, are exactly the units the source
  reported as successfully read, as the schedule delivers them (for the Quantis, a source
  that stores whole units), in read order: each is handed over once, right after its
  read, with nothing inserted and nothing reordered. The sink takes a unit when its write
  does not come back short. So the units taken are always a subsequence of the units
  read, and as long as no write has come back short the stream taken, with the unit in
  flight, is exactly the concatenation of the units read. A unit whose write comes back
  short is not delivered: in seventool.c the run has then ended and the stream taken is
  the concatenation of the units read but the last.
\<close>

theorem sink_takes_source_units:
  "(q_full h (unat (size_v (q_start h opts env))) evs \<longrightarrow>
      q_sunk (trace (quantistool h opts env evs)) @ q_inflight (quantistool h opts env evs)
        = q_src h (q_start h opts env) evs
      \<and> (\<not> q_short (trace (quantistool h opts env evs)) \<longrightarrow>
           q_taken (trace (quantistool h opts env evs)) @ q_inflight (quantistool h opts env evs)
             = q_src h (q_start h opts env) evs
           \<and> concat (q_taken (trace (quantistool h opts env evs)))
               @ concat (q_inflight (quantistool h opts env evs))
             = concat (q_src h (q_start h opts env) evs))
      \<and> subseq (q_taken (trace (quantistool h opts env evs))) (q_src h (q_start h opts env) evs))
   \<and> s_sunk (strace (seventool sopts senv sevs)) @ s_inflight (seventool sopts senv sevs)
       = s_src (s_start sopts senv) sevs
   \<and> (\<not> s_short (strace (seventool sopts senv sevs)) \<longrightarrow>
        s_taken (strace (seventool sopts senv sevs)) @ s_inflight (seventool sopts senv sevs)
          = s_src (s_start sopts senv) sevs
        \<and> concat (map word_bytes (s_taken (strace (seventool sopts senv sevs))))
            @ concat (map word_bytes (s_inflight (seventool sopts senv sevs)))
          = concat (map word_bytes (s_src (s_start sopts senv) sevs)))
   \<and> (s_short (strace (seventool sopts senv sevs)) \<longrightarrow>
        spc (seventool sopts senv sevs) = P_returned
        \<and> s_taken (strace (seventool sopts senv sevs))
            = butlast (s_src (s_start sopts senv) sevs))
   \<and> subseq (s_taken (strace (seventool sopts senv sevs))) (s_src (s_start sopts senv) sevs)"
proof -
  define Q where "Q = quantistool h opts env evs"
  define S where "S = seventool sopts senv sevs"
  define qs where "qs = q_src h (q_start h opts env) evs"
  define ss where "ss = s_src (s_start sopts senv) sevs"
  have q: "q_full h (unat (size_v (q_start h opts env))) evs \<longrightarrow>
      q_sunk (trace Q) @ q_inflight Q = qs
      \<and> (\<not> q_short (trace Q) \<longrightarrow>
           q_taken (trace Q) @ q_inflight Q = qs
           \<and> concat (q_taken (trace Q)) @ concat (q_inflight Q) = concat qs)
      \<and> subseq (q_taken (trace Q)) qs"
  proof
    assume f: "q_full h (unat (size_v (q_start h opts env))) evs"
    have b: "q_buf (q_start h opts env)"
      unfolding q_start_def by (rule q_buf_setup)
    have "q_sunk (trace (q_start h opts env)) = [] \<and> q_inflight (q_start h opts env) = []"
      using q_pre_start [of h env opts] q_pc_setup [of h env "q_getopt h opts q_init"]
      by (auto simp: q_pre_def q_start_def q_inflight_def)
    with q_src_run [OF b f] have 1: "q_sunk (trace Q) @ q_inflight Q = qs"
      by (simp add: Q_def qs_def quantistool_start)
    have 2: "\<not> q_short (trace Q) \<longrightarrow>
           q_taken (trace Q) @ q_inflight Q = qs
           \<and> concat (q_taken (trace Q)) @ concat (q_inflight Q) = concat qs"
    proof
      assume "\<not> q_short (trace Q)"
      then have "q_taken (trace Q) = q_sunk (trace Q)" by (rule q_taken_all)
      with 1 have t: "q_taken (trace Q) @ q_inflight Q = qs" by simp
      have "concat (q_taken (trace Q)) @ concat (q_inflight Q) = concat qs"
        by (simp only: t [symmetric] concat_append)
      with t show "q_taken (trace Q) @ q_inflight Q = qs
           \<and> concat (q_taken (trace Q)) @ concat (q_inflight Q) = concat qs"
        by simp
    qed
    have 3: "subseq (q_taken (trace Q)) qs"
      unfolding 1 [symmetric] by (rule subseq_rev_drop_many [OF q_taken_sunk])
    from 1 2 3 show "q_sunk (trace Q) @ q_inflight Q = qs
      \<and> (\<not> q_short (trace Q) \<longrightarrow>
           q_taken (trace Q) @ q_inflight Q = qs
           \<and> concat (q_taken (trace Q)) @ concat (q_inflight Q) = concat qs)
      \<and> subseq (q_taken (trace Q)) qs"
      by simp
  qed
  have r: "s_ready (s_start sopts senv)"
    unfolding s_start_def by (rule s_ready_setup)
  have "s_sunk (strace (s_start sopts senv)) = [] \<and> s_inflight (s_start sopts senv) = []"
    using s_pre_start [of senv sopts] s_pc_setup [of senv "s_getopt sopts (s_init senv)"]
    by (auto simp: s_pre_def s_start_def s_inflight_def)
  with s_src_run [OF r, of sevs] have s1: "s_sunk (strace S) @ s_inflight S = ss"
    by (simp add: S_def ss_def seventool_start)
  have l: "s_lost S"
    unfolding S_def seventool_start by (rule s_lost_run [OF s_lost_start])
  have s2: "\<not> s_short (strace S) \<longrightarrow>
        s_taken (strace S) @ s_inflight S = ss
        \<and> concat (map word_bytes (s_taken (strace S))) @ concat (map word_bytes (s_inflight S))
          = concat (map word_bytes ss)"
  proof
    assume "\<not> s_short (strace S)"
    then have "s_taken (strace S) = s_sunk (strace S)" by (rule s_taken_all)
    with s1 have t: "s_taken (strace S) @ s_inflight S = ss" by simp
    have "concat (map word_bytes (s_taken (strace S))) @ concat (map word_bytes (s_inflight S))
          = concat (map word_bytes ss)"
      by (simp only: t [symmetric] concat_append map_append)
    with t show "s_taken (strace S) @ s_inflight S = ss
        \<and> concat (map word_bytes (s_taken (strace S))) @ concat (map word_bytes (s_inflight S))
          = concat (map word_bytes ss)"
      by simp
  qed
  have s3: "s_short (strace S) \<longrightarrow> spc S = P_returned \<and> s_taken (strace S) = butlast ss"
  proof
    assume sh: "s_short (strace S)"
    with l have p: "spc S = P_returned" and b: "s_taken (strace S) = butlast (s_sunk (strace S))"
      by (simp_all add: s_lost_def)
    from p have "s_inflight S = []" by (simp add: s_inflight_def)
    with s1 have "s_sunk (strace S) = ss" by simp
    with p b show "spc S = P_returned \<and> s_taken (strace S) = butlast ss" by simp
  qed
  have s4: "subseq (s_taken (strace S)) ss"
    unfolding s1 [symmetric] by (rule subseq_rev_drop_many [OF s_taken_sunk])
  from q s1 s2 s3 s4 show ?thesis
    unfolding Q_def S_def qs_def ss_def by blast
qed

text \<open>
  The claim as it was stated fails at a short write: the unit was read, the source
  reported success, and the sink has not taken it when \<^verbatim>\<open>main\<close> returns. In
  seventool.c the write of the word 5 comes back short; in quantistool.c the write of the
  unit 7 comes back short on a broken pipe, whose signal has requested the shutdown.
\<close>

theorem short_write_loses_read_unit:
  "s_src (s_start [SOpt_R] senv0) [Tau, Tau, SampleRet 5 True, WriteRet 0] = [5]
   \<and> s_taken (strace (seventool [SOpt_R] senv0 [Tau, Tau, SampleRet 5 True, WriteRet 0])) = []
   \<and> spc (seventool [SOpt_R] senv0 [Tau, Tau, SampleRet 5 True, WriteRet 0]) = P_returned
   \<and> q_src h0 (q_start h0 [Opt_r ''1'' 1 True] (qenv0 usb0))
        [Tau, OpenRet 0 (Some 1), Tau, Tau, ReadRet 1 [7], Sig SIGPIPE, WriteRet 0, Tau, Tau]
       = [[7]]
   \<and> q_taken (trace (quantistool h0 [Opt_r ''1'' 1 True] (qenv0 usb0)
        [Tau, OpenRet 0 (Some 1), Tau, Tau, ReadRet 1 [7], Sig SIGPIPE, WriteRet 0, Tau, Tau]))
       = []
   \<and> pc (quantistool h0 [Opt_r ''1'' 1 True] (qenv0 usb0)
        [Tau, OpenRet 0 (Some 1), Tau, Tau, ReadRet 1 [7], Sig SIGPIPE, WriteRet 0, Tau, Tau])
       = Q_returned"
  by code_simp

theorem sink_takes_source_units_witness:
  "q_full h0 (unat (size_v (q_start h0 [Opt_r ''1'' 1 True] (qenv0 usb0))))
     [Tau, OpenRet 0 (Some 1), Tau, Tau, ReadRet (- 1) [], ReadRet 1 [7], WriteRet 1,
      Tau, Tau, ReadRet 1 [8]]
   \<and> \<not> q_short (trace (quantistool h0 [Opt_r ''1'' 1 True] (qenv0 usb0)
     [Tau, OpenRet 0 (Some 1), Tau, Tau, ReadRet (- 1) [], ReadRet 1 [7], WriteRet 1,
      Tau, Tau, ReadRet 1 [8]]))
   \<and> q_taken (trace (quantistool h0 [Opt_r ''1'' 1 True] (qenv0 usb0)
     [Tau, OpenRet 0 (Some 1), Tau, Tau, ReadRet (- 1) [], ReadRet 1 [7], WriteRet 1,
      Tau, Tau, ReadRet 1 [8]]))
     @ q_inflight (quantistool h0 [Opt_r ''1'' 1 True] (qenv0 usb0)
     [Tau, OpenRet 0 (Some 1), Tau, Tau, ReadRet (- 1) [], ReadRet 1 [7], WriteRet 1,
      Tau, Tau, ReadRet 1 [8]])
     = [[7], [8]]
   \<and> s_short (strace (seventool [SOpt_R] senv0
        [Tau, Tau, SampleRet 5 True, WriteRet 1, Tau, Tau, SampleRet 6 True, WriteRet 0]))
   \<and> spc (seventool [SOpt_R] senv0
        [Tau, Tau, SampleRet 5 True, WriteRet 1, Tau, Tau, SampleRet 6 True, WriteRet 0])
       = P_returned
   \<and> s_taken (strace (seventool [SOpt_R] senv0
        [Tau, Tau, SampleRet 5 True, WriteRet 1, Tau, Tau, SampleRet 6 True, WriteRet 0]))
       = [5]"
proof -
  have a: "q_full h0 (unat (size_v (q_start h0 [Opt_r ''1'' 1 True] (qenv0 usb0))))
     [Tau, OpenRet 0 (Some 1), Tau, Tau, ReadRet (- 1) [], ReadRet 1 [7], WriteRet 1,
      Tau, Tau, ReadRet 1 [8]]"
    by code_simp
  have b: "\<not> q_short (trace (quantistool h0 [Opt_r ''1'' 1 True] (qenv0 usb0)
     [Tau, OpenRet 0 (Some 1), Tau, Tau, ReadRet (- 1) [], ReadRet 1 [7], WriteRet 1,
      Tau, Tau, ReadRet 1 [8]]))"
    by code_simp
  have c: "q_src h0 (q_start h0 [Opt_r ''1'' 1 True] (qenv0 usb0))
     [Tau, OpenRet 0 (Some 1), Tau, Tau, ReadRet (- 1) [], ReadRet 1 [7], WriteRet 1,
      Tau, Tau, ReadRet 1 [8]] = [[7], [8]]"
    by code_simp
  have d: "s_short (strace (seventool [SOpt_R] senv0
        [Tau, Tau, SampleRet 5 True, WriteRet 1, Tau, Tau, SampleRet 6 True, WriteRet 0]))"
    by code_simp
  have e: "s_src (s_start [SOpt_R] senv0)
        [Tau, Tau, SampleRet 5 True, WriteRet 1, Tau, Tau, SampleRet 6 True, WriteRet 0]
        = [5, 6]"
    by code_simp
  show ?thesis
    using sink_takes_source_units [where h = h0 and opts = "[Opt_r ''1'' 1 True]"
        and env = "qenv0 usb0"
        and evs = "[Tau, OpenRet 0 (Some 1), Tau, Tau, ReadRet (- 1) [], ReadRet 1 [7],
                    WriteRet 1, Tau, Tau, ReadRet 1 [8]]"
        and sopts = "[SOpt_R]" and senv = senv0
        and sevs = "[Tau, Tau, SampleRet 5 True, WriteRet 1, Tau, Tau, SampleRet 6 True,
                     WriteRet 0]"]
      a b c d e
    by simp
qed

end
